theory Spec2Isabelle
  imports Main
begin

section \<open>The logger of \<open>logger.go\<close>: constants and data\<close>

text \<open>
  Go's \<open>int\<close> is read as a mathematical integer: the program only stores and compares
  levels and trace types, it never computes with them.
\<close>

definition LEVEL_ERROR :: int where "LEVEL_ERROR = 0"
definition LEVEL_INFO :: int where "LEVEL_INFO = 1"
definition LEVEL_DEBUG :: int where "LEVEL_DEBUG = 2"

definition TRACE_TYPE_ONE :: int where "TRACE_TYPE_ONE = 0"
definition TRACE_TYPE_ANY :: int where "TRACE_TYPE_ANY = 1"

text \<open>The four operations of a sink.\<close>

datatype operation = OpLog | OpError | OpFatal | OpDebug

text \<open>
  A value behind \<open>ProviderInterface\<close>. The model keeps what the logger can observe of it:
  the identifier \<open>GetID\<close> returns (the same at every call), the identity of the object,
  which tells two sinks reporting the same identifier apart, and how its operations end:
  \<open>panics p oper msg\<close> is \<open>None\<close> where the operation returns on that message and the
  panic value where it panics.
\<close>

record Provider =
  GetID :: string
  object :: nat
  panics :: "operation \<Rightarrow> string \<Rightarrow> string option"

record Logger =
  providers :: "string \<rightharpoonup> Provider"
  logProviders :: "string list"
  errorProviders :: "string list"
  fatalProviders :: "string list"
  debugProviders :: "string list"
  level :: int
  traceType :: int

datatype panic = Panic string

definition NewLogger :: Logger where
  "NewLogger = \<lparr>providers = Map.empty, logProviders = [], errorProviders = [],
     fatalProviders = [], debugProviders = [], level = 0, traceType = 0\<rparr>"

section \<open>Configuration\<close>

text \<open>The returned pair is the \<open>error\<close> result (\<open>None\<close> for \<open>nil\<close>) and the logger afterwards.\<close>

definition SetTraceType :: "int \<Rightarrow> Logger \<Rightarrow> string option \<times> Logger" where
  "SetTraceType val l =
     (if val \<noteq> TRACE_TYPE_ONE \<and> val \<noteq> TRACE_TYPE_ANY
      then (Some ''Unknown trace type.'', l)
      else (None, l\<lparr>traceType := val\<rparr>))"

definition SetLevel :: "int \<Rightarrow> Logger \<Rightarrow> Logger" where
  "SetLevel lv l = l\<lparr>level := lv\<rparr>"

definition RegisterProvider :: "Provider \<Rightarrow> Logger \<Rightarrow> Logger" where
  "RegisterProvider p l = l\<lparr>providers := (providers l)(GetID p \<mapsto> p)\<rparr>"

section \<open>Attaching sinks to categories\<close>

text \<open>
  \<open>addProvider\<close> selects one of the four slices through the pointer \<open>IDs\<close>. The pointer is
  modelled by the name of the field it points to, with a read and a write through it.
\<close>

datatype field = DebugProviders | LogProviders | ErrorProviders | FatalProviders

fun deref :: "field \<Rightarrow> Logger \<Rightarrow> string list" where
  "deref DebugProviders l = debugProviders l"
| "deref LogProviders l = logProviders l"
| "deref ErrorProviders l = errorProviders l"
| "deref FatalProviders l = fatalProviders l"

fun assign :: "field \<Rightarrow> string list \<Rightarrow> Logger \<Rightarrow> Logger" where
  "assign DebugProviders v l = l\<lparr>debugProviders := v\<rparr>"
| "assign LogProviders v l = l\<lparr>logProviders := v\<rparr>"
| "assign ErrorProviders v l = l\<lparr>errorProviders := v\<rparr>"
| "assign FatalProviders v l = l\<lparr>fatalProviders := v\<rparr>"

text \<open>The \<open>switch\<close> on the provider type, with its panicking default.\<close>

definition select_field :: "string \<Rightarrow> panic + field" where
  "select_field providerType =
     (if providerType = ''debug'' then Inr DebugProviders
      else if providerType = ''log'' then Inr LogProviders
      else if providerType = ''error'' then Inr ErrorProviders
      else if providerType = ''fatal'' then Inr FatalProviders
      else Inl (Panic ''Wrong type of the provider.''))"

fun alreadyRegistred :: "string \<Rightarrow> string list \<Rightarrow> bool" where
  "alreadyRegistred ident [] = False"
| "alreadyRegistred ident (val # rest) = (if val = ident then True else alreadyRegistred ident rest)"

text \<open>One round of the loop over \<open>providersIDs\<close>, and the loop.\<close>

definition attach_one :: "field \<Rightarrow> string \<Rightarrow> Logger \<Rightarrow> Logger" where
  "attach_one IDs ident l =
     (case providers l ident of
        None \<Rightarrow> l
      | Some provider \<Rightarrow>
          (let pID = GetID provider in
           if \<not> alreadyRegistred pID (deref IDs l)
           then assign IDs (deref IDs l @ [pID]) l
           else l))"

fun attach_loop :: "field \<Rightarrow> string list \<Rightarrow> Logger \<Rightarrow> Logger" where
  "attach_loop IDs [] l = l"
| "attach_loop IDs (ident # rest) l = attach_loop IDs rest (attach_one IDs ident l)"

definition addProvider :: "string \<Rightarrow> string list \<Rightarrow> Logger \<Rightarrow> panic + Logger" where
  "addProvider providerType providersIDs l =
     (case select_field providerType of
        Inl p \<Rightarrow> Inl p
      | Inr IDs \<Rightarrow> Inr (attach_loop IDs providersIDs l))"

definition AddLogProvider :: "string list \<Rightarrow> Logger \<Rightarrow> panic + Logger" where
  "AddLogProvider provIDs l = addProvider ''log'' provIDs l"

definition AddErrorProvider :: "string list \<Rightarrow> Logger \<Rightarrow> panic + Logger" where
  "AddErrorProvider provIDs l = addProvider ''error'' provIDs l"

definition AddFatalProvider :: "string list \<Rightarrow> Logger \<Rightarrow> panic + Logger" where
  "AddFatalProvider provIDs l = addProvider ''fatal'' provIDs l"

definition AddDebugProvider :: "string list \<Rightarrow> Logger \<Rightarrow> panic + Logger" where
  "AddDebugProvider provIDs l = addProvider ''debug'' provIDs l"

section \<open>Library functions the message builder uses\<close>

text \<open>
  The functions of Go's \<open>strings\<close>, \<open>log\<close> and \<open>fmt\<close> packages that \<open>makeMessage\<close> calls,
  as their documentation describes them. Strings are byte lists.
\<close>

definition LF :: char where "LF = CHR 0x0A"
definition CR :: char where "CR = CHR 0x0D"
definition TAB :: char where "TAB = CHR 0x09"

definition HasPrefix :: "string \<Rightarrow> string \<Rightarrow> bool" where
  "HasPrefix s pre = (length pre \<le> length s \<and> take (length pre) s = pre)"

text \<open>\<open>strings.TrimRight\<close>: drop every trailing byte that occurs in the cutset.\<close>

definition TrimRight :: "string \<Rightarrow> string \<Rightarrow> string" where
  "TrimRight s cutset = rev (dropWhile (\<lambda>c. c \<in> set cutset) (rev s))"

text \<open>
  \<open>strings.NewReplacer\<close> takes the pairs old, new. \<open>Replace\<close> scans the string from the
  left; at each position the first pair, in argument order, whose old string starts there
  is replaced and the scan goes on behind the match; matches do not overlap. An empty old
  string matches once at every position (the flag says that the empty match at this
  position has been taken).
\<close>

type_synonym Replacer = "(string \<times> string) list"

fun lookup :: "Replacer \<Rightarrow> bool \<Rightarrow> string \<Rightarrow> (string \<times> string) option" where
  "lookup [] ignoreRoot s = None"
| "lookup ((old, new) # rest) ignoreRoot s =
     (if HasPrefix s old \<and> \<not> (ignoreRoot \<and> old = []) then Some (old, new)
      else lookup rest ignoreRoot s)"

lemma lookup_ignoreRoot: "lookup r True s = Some (old, new) \<Longrightarrow> old \<noteq> []"
  by (induction r) (auto split: if_splits)

lemma lookup_length: "lookup r e s = Some (old, new) \<Longrightarrow> length old \<le> length s"
  by (induction r) (auto simp: HasPrefix_def split: if_splits)

function Replace_from :: "Replacer \<Rightarrow> bool \<Rightarrow> string \<Rightarrow> string" where
  "Replace_from r prevMatchEmpty s =
     (case lookup r prevMatchEmpty s of
        Some (old, new) \<Rightarrow>
          (if old = [] then new @ Replace_from r True s
           else new @ Replace_from r False (drop (length old) s))
      | None \<Rightarrow>
          (case s of [] \<Rightarrow> [] | c # cs \<Rightarrow> c # Replace_from r False cs))"
  by pat_completeness auto
termination
proof (relation "measure (\<lambda>(r, e, s). 2 * length s + (if e then 0 else 1))")
  fix r :: Replacer and e :: bool and s old new :: string and x :: "string \<times> string"
  assume "lookup r e s = Some x" "(old, new) = x" "old = []"
  then have "\<not> e" using lookup_ignoreRoot [of r s old new] by auto
  then show "((r, True, s), (r, e, s)) \<in> measure (\<lambda>(r, e, s). 2 * length s + (if e then 0 else 1))"
    by simp
next
  fix r :: Replacer and e :: bool and s old new :: string and x :: "string \<times> string"
  assume "lookup r e s = Some x" "(old, new) = x" "old \<noteq> []"
  then have "length old \<le> length s" "0 < length old"
    using lookup_length [of r e s old new] by auto
  then show "((r, False, drop (length old) s), (r, e, s))
      \<in> measure (\<lambda>(r, e, s). 2 * length s + (if e then 0 else 1))"
    by (cases e; simp; arith)
qed auto

declare Replace_from.simps [simp del]

definition Replace :: "Replacer \<Rightarrow> string \<Rightarrow> string" where
  "Replace r s = Replace_from r False s"

text \<open>
  The call stack, as \<open>runtime.Caller\<close> shows it to \<open>log.Output\<close> when called from
  \<open>makeMessage\<close>: a frame is the short file name and the line, and the list holds the frames
  from depth 2 (the caller of \<open>makeMessage\<close>) outwards. Depths 0 and 1 are \<open>Output\<close> and
  \<open>makeMessage\<close> themselves and are never asked for.
\<close>

type_synonym frame = "string \<times> nat"

definition Caller :: "frame list \<Rightarrow> nat \<Rightarrow> frame option" where
  "Caller stk skip =
     (if 2 \<le> skip \<and> skip - 2 < length stk then Some (stk ! (skip - 2)) else None)"

definition digit :: "nat \<Rightarrow> char" where
  "digit d = ''0123456789'' ! d"

function itoa :: "nat \<Rightarrow> string" where
  "itoa n = (if n < 10 then [digit n] else itoa (n div 10) @ [digit (n mod 10)])"
  by pat_completeness auto
termination
  by (relation "measure (\<lambda>n. n)") auto

declare itoa.simps [simp del]

text \<open>
  \<open>logger.Output(calldepth, "")\<close> with the flag \<open>Lshortfile\<close> and no prefix, into an empty
  buffer: file, colon, line, colon, space, and the newline \<open>Output\<close> adds to an empty
  message. Where the stack has no frame at that depth, \<open>Output\<close> prints \<open>???\<close> and line 0.
\<close>

definition Output_shortfile :: "frame list \<Rightarrow> nat \<Rightarrow> string" where
  "Output_shortfile stk calldepth =
     (let (file, line) = (case Caller stk calldepth of None \<Rightarrow> (''???'', 0) | Some f \<Rightarrow> f)
      in file @ '':'' @ itoa line @ '': '' @ [LF])"

text \<open>\<open>logger.Output(0, s)\<close> with no flag and a prefix, into an empty buffer.\<close>

definition Output_prefix :: "string \<Rightarrow> string \<Rightarrow> string" where
  "Output_prefix prefix s =
     prefix @ s @ (if length s = 0 \<or> last s \<noteq> LF then [LF] else [])"

text \<open>
  A message part is a value of any type; the model has strings and integers, the two kinds
  the tests of the repository pass. \<open>Fprint\<close> is \<open>fmt.Fprint\<close> of one operand.
\<close>

datatype part = PString string | PInt int

fun Fprint :: "part \<Rightarrow> string" where
  "Fprint (PString s) = s"
| "Fprint (PInt n) = (if n < 0 then ''-'' @ itoa (nat (- n)) else itoa (nat n))"

section \<open>The message builder\<close>

definition MESSAGE_REPLACER :: Replacer where
  "MESSAGE_REPLACER = [([CR], ''''), ([LF], [TAB])]"

definition MESSAGE_SEPARATOR :: string where
  "MESSAGE_SEPARATOR = '' ''"

definition LOGGER_LINE_REPLACER :: Replacer where
  "LOGGER_LINE_REPLACER = [('': '', ''''), ('' '', ''''), ([LF], '', '')]"

text \<open>
  What \<open>makeMessage\<close> reads and writes outside its arguments: the package variable \<open>HOST\<close>,
  the name \<open>os.Hostname\<close> returns, and the time of the call already formatted as RFC 3339.
  The calls the sinks have received are part of the world too.
\<close>

datatype event = Call operation Provider string

record World =
  HOST :: string
  os_Hostname :: string
  time_Now :: string
  calls :: "event list"

text \<open>The loop \<open>for i := 2; i < 6; i++\<close>, over the depths still to visit.\<close>

fun frames_loop :: "int \<Rightarrow> frame list \<Rightarrow> nat list \<Rightarrow> string \<Rightarrow> string" where
  "frames_loop tt stk [] lineBuf = lineBuf"
| "frames_loop tt stk (i # rest) lineBuf =
     (let val = Output_shortfile stk i in
      if HasPrefix val ''logger.go:'' then frames_loop tt stk rest lineBuf
      else if HasPrefix val ''testing.go:'' then lineBuf
      else (let lineBuf' = lineBuf @ val in
            if tt = TRACE_TYPE_ONE then lineBuf' else frames_loop tt stk rest lineBuf'))"

text \<open>The variable \<open>line\<close>: the location field of the message.\<close>

definition trace_line :: "int \<Rightarrow> frame list \<Rightarrow> string" where
  "trace_line tt stk =
     TrimRight (Replace LOGGER_LINE_REPLACER (frames_loop tt stk [2..<6] [])) '', ''"

text \<open>The loop over the message parts, \<open>i\<close> the index of the next part.\<close>

fun write_parts :: "nat \<Rightarrow> part list \<Rightarrow> string \<Rightarrow> string" where
  "write_parts i [] msg = msg"
| "write_parts i (v # rest) msg =
     write_parts (i + 1) rest ((if i > 0 then msg @ MESSAGE_SEPARATOR else msg) @ Fprint v)"

text \<open>The text handed to the last \<open>Output\<close>: the message body.\<close>

definition message_body :: "part list \<Rightarrow> string" where
  "message_body err = Replace MESSAGE_REPLACER (write_parts 0 err [])"

definition makeMessage ::
  "string \<Rightarrow> part list \<Rightarrow> int \<Rightarrow> frame list \<Rightarrow> World \<Rightarrow> string \<times> World" where
  "makeMessage typeLog err tt stk w =
     (let w1 = (if length (HOST w) = 0 then w\<lparr>HOST := os_Hostname w\<rparr> else w);
          line = trace_line tt stk;
          prefix = typeLog @ '': '' @ time_Now w1 @ '' '' @ HOST w1 @ '' '' @ line @ '': ''
      in (filter (\<lambda>c. c \<noteq> LF) (Output_prefix prefix (message_body err)), w1))"

section \<open>The entry points\<close>

text \<open>
  Each entry point takes the frames of its callers, innermost first, and puts its own frame
  (the line of its call in \<open>logger.go\<close>) in front. The formatted variants take
  \<open>fmt.Sprintf\<close> as a parameter. A call either returns, or a sink's operation panics and
  the panic leaves the entry point (nothing in \<open>logger.go\<close> recovers), or the process exits;
  each outcome carries the world at that moment. A sink has received a call when its
  operation is entered, whether it then returns or panics.
\<close>

datatype outcome = Returned World | Panicked string World | Exited int World

fun dispatch :: "operation \<Rightarrow> Logger \<Rightarrow> string list \<Rightarrow> string \<Rightarrow> World \<Rightarrow> outcome" where
  "dispatch oper l [] msg w = Returned w"
| "dispatch oper l (pID # rest) msg w =
     (case providers l pID of
        None \<Rightarrow> dispatch oper l rest msg w
      | Some p \<Rightarrow>
          (let w' = w\<lparr>calls := calls w @ [Call oper p msg]\<rparr> in
           case panics p oper msg of
             Some v \<Rightarrow> Panicked v w'
           | None \<Rightarrow> dispatch oper l rest msg w'))"

definition Log :: "Logger \<Rightarrow> frame list \<Rightarrow> part list \<Rightarrow> World \<Rightarrow> outcome" where
  "Log l stk messageParts w =
     (if level l < LEVEL_INFO then Returned w
      else (let (msg, w1) = makeMessage ''LOG'' messageParts (traceType l)
                              ((''logger.go'', 129) # stk) w
            in dispatch OpLog l (logProviders l) msg w1))"

definition Logf ::
  "(string \<Rightarrow> part list \<Rightarrow> string) \<Rightarrow> Logger \<Rightarrow> frame list \<Rightarrow> string \<Rightarrow> part list \<Rightarrow> World \<Rightarrow> outcome" where
  "Logf Sprintf l stk format params w =
     (if level l < LEVEL_INFO then Returned w
      else Log l ((''logger.go'', 122) # stk) [PString (Sprintf format params)] w)"

definition Error :: "Logger \<Rightarrow> frame list \<Rightarrow> part list \<Rightarrow> World \<Rightarrow> outcome" where
  "Error l stk messageParts w =
     (let (msg, w1) = makeMessage ''ERROR'' messageParts (traceType l)
                        ((''logger.go'', 144) # stk) w
      in dispatch OpError l (errorProviders l) msg w1)"

definition Errorf ::
  "(string \<Rightarrow> part list \<Rightarrow> string) \<Rightarrow> Logger \<Rightarrow> frame list \<Rightarrow> string \<Rightarrow> part list \<Rightarrow> World \<Rightarrow> outcome" where
  "Errorf Sprintf l stk format params w =
     Error l ((''logger.go'', 139) # stk) [PString (Sprintf format params)] w"

definition Debug :: "Logger \<Rightarrow> frame list \<Rightarrow> part list \<Rightarrow> World \<Rightarrow> outcome" where
  "Debug l stk messageParts w =
     (if level l < LEVEL_DEBUG then Returned w
      else (let (msg, w1) = makeMessage ''DEBUG'' messageParts (traceType l)
                              ((''logger.go'', 166) # stk) w
            in dispatch OpDebug l (debugProviders l) msg w1))"

definition Debugf ::
  "(string \<Rightarrow> part list \<Rightarrow> string) \<Rightarrow> Logger \<Rightarrow> frame list \<Rightarrow> string \<Rightarrow> part list \<Rightarrow> World \<Rightarrow> outcome" where
  "Debugf Sprintf l stk format params w =
     (if level l < LEVEL_DEBUG then Returned w
      else Debug l ((''logger.go'', 158) # stk) [PString (Sprintf format params)] w)"

text \<open>
  \<open>Fatal\<close> reaches \<open>os.Exit(1)\<close> when the loop over the sinks has returned; a panic in the
  loop leaves \<open>Fatal\<close> before that line.
\<close>

definition Fatal :: "Logger \<Rightarrow> frame list \<Rightarrow> part list \<Rightarrow> World \<Rightarrow> outcome" where
  "Fatal l stk messageParts w =
     (let (msg, w1) = makeMessage ''FATAL'' messageParts (traceType l)
                        ((''logger.go'', 180) # stk) w
      in case dispatch OpFatal l (fatalProviders l) msg w1 of
           Returned w2 \<Rightarrow> Exited 1 w2
         | Panicked v w2 \<Rightarrow> Panicked v w2
         | Exited c w2 \<Rightarrow> Exited c w2)"

definition Fatalf ::
  "(string \<Rightarrow> part list \<Rightarrow> string) \<Rightarrow> Logger \<Rightarrow> frame list \<Rightarrow> string \<Rightarrow> part list \<Rightarrow> World \<Rightarrow> outcome" where
  "Fatalf Sprintf l stk format params w =
     Fatal l ((''logger.go'', 176) # stk) [PString (Sprintf format params)] w"

section \<open>Sequences of configuration calls\<close>

text \<open>
  The exported configuration methods as a datatype of calls, so that a statement can speak
  about every logger a program can build from \<open>NewLogger\<close>. \<open>SetTraceType\<close> may return
  an error; the logger goes on with the state it leaves.
\<close>

datatype config_call =
    Register Provider
  | AddLog "string list"
  | AddError "string list"
  | AddFatal "string list"
  | AddDebug "string list"
  | Level int
  | TraceType int

fun apply_call :: "config_call \<Rightarrow> Logger \<Rightarrow> panic + Logger" where
  "apply_call (Register p) l = Inr (RegisterProvider p l)"
| "apply_call (AddLog provIDs) l = AddLogProvider provIDs l"
| "apply_call (AddError provIDs) l = AddErrorProvider provIDs l"
| "apply_call (AddFatal provIDs) l = AddFatalProvider provIDs l"
| "apply_call (AddDebug provIDs) l = AddDebugProvider provIDs l"
| "apply_call (Level lv) l = Inr (SetLevel lv l)"
| "apply_call (TraceType val) l = Inr (snd (SetTraceType val l))"

fun run_calls :: "config_call list \<Rightarrow> Logger \<Rightarrow> panic + Logger" where
  "run_calls [] l = Inr l"
| "run_calls (c # cs) l =
     (case apply_call c l of Inl p \<Rightarrow> Inl p | Inr l' \<Rightarrow> run_calls cs l')"

text \<open>The attach call for the category whose slice is the given field.\<close>

fun attach_call :: "field \<Rightarrow> string list \<Rightarrow> config_call" where
  "attach_call DebugProviders provIDs = AddDebug provIDs"
| "attach_call LogProviders provIDs = AddLog provIDs"
| "attach_call ErrorProviders provIDs = AddError provIDs"
| "attach_call FatalProviders provIDs = AddFatal provIDs"

section \<open>Notions the statements use\<close>

text \<open>Every key of the registry maps to a sink that reports that key.\<close>

definition registry_ok :: "Logger \<Rightarrow> bool" where
  "registry_ok l = (\<forall>k p. providers l k = Some p \<longrightarrow> GetID p = k)"

definition listed_registered :: "Logger \<Rightarrow> bool" where
  "listed_registered l = (\<forall>f. set (deref f l) \<subseteq> dom (providers l))"

definition lists_distinct :: "Logger \<Rightarrow> bool" where
  "lists_distinct l = (\<forall>f. distinct (deref f l))"

text \<open>
  A list without its repetitions, every element at the place of its first occurrence
  (\<open>remdups\<close> keeps the last occurrence, hence the reversals).
\<close>

definition first_occurrences :: "'a list \<Rightarrow> 'a list" where
  "first_occurrences xs = rev (remdups (rev xs))"

text \<open>
  The sinks a list of identifiers stands for: the registry's entry for each identifier it
  knows, in the order of the list. And calling one operation of each sink of a list in
  order, up to the first that panics.
\<close>

definition listed_sinks :: "Logger \<Rightarrow> string list \<Rightarrow> Provider list" where
  "listed_sinks l ids =
     concat (map (\<lambda>pID. case providers l pID of None \<Rightarrow> [] | Some p \<Rightarrow> [p]) ids)"

fun call_all :: "operation \<Rightarrow> Provider list \<Rightarrow> string \<Rightarrow> World \<Rightarrow> outcome" where
  "call_all oper [] msg w = Returned w"
| "call_all oper (p # ps) msg w =
     (case panics p oper msg of
        Some v \<Rightarrow> Panicked v (w\<lparr>calls := calls w @ [Call oper p msg]\<rparr>)
      | None \<Rightarrow> call_all oper ps msg (w\<lparr>calls := calls w @ [Call oper p msg]\<rparr>))"

text \<open>\<open>strings.Join\<close>: the elements with the separator between neighbours.\<close>

fun Join :: "string list \<Rightarrow> string \<Rightarrow> string" where
  "Join [] sep = []"
| "Join [x] sep = x"
| "Join (x # y # ys) sep = x @ sep @ Join (y # ys) sep"

text \<open>
  The entry of a frame in the location field, what \<open>Output\<close> prints for it, and the frame
  \<open>Output\<close> shows at a depth (the unknown frame behind the outermost one).
\<close>

definition location :: "frame \<Rightarrow> string" where
  "location fr = fst fr @ '':'' @ itoa (snd fr)"

definition header :: "frame \<Rightarrow> string" where
  "header fr = location fr @ '': '' @ [LF]"

definition frame_at :: "frame list \<Rightarrow> nat \<Rightarrow> frame" where
  "frame_at stk i = (case Caller stk i of None \<Rightarrow> (''???'', 0) | Some f \<Rightarrow> f)"

text \<open>A file name without colon, space and newline.\<close>

definition plain_name :: "string \<Rightarrow> bool" where
  "plain_name nm = (CHR '':'' \<notin> set nm \<and> CHR '' '' \<notin> set nm \<and> LF \<notin> set nm)"

text \<open>
  The frames outside \<open>logger.go\<close> that come before the first frame of \<open>testing.go\<close>, and
  what the walk records of a list of frames in either trace mode.
\<close>

definition external_frames :: "frame list \<Rightarrow> frame list" where
  "external_frames frs =
     filter (\<lambda>fr. fst fr \<noteq> ''logger.go'') (takeWhile (\<lambda>fr. fst fr \<noteq> ''testing.go'') frs)"

definition recorded :: "int \<Rightarrow> frame list \<Rightarrow> frame list" where
  "recorded tt frs =
     (if tt = TRACE_TYPE_ONE then take 1 (external_frames frs) else external_frames frs)"

section \<open>Example values\<close>

text \<open>
  The sink of the repository's tests, \<open>Provider{Level, NotCheckLevel}\<close>: it reports its
  level as identifier, panics in \<open>Error\<close> and \<open>Fatal\<close> always, and in \<open>Log\<close> and \<open>Debug\<close>
  when its level is below the threshold or \<open>NotCheckLevel\<close> is set.
\<close>

definition test_Provider :: "int \<Rightarrow> bool \<Rightarrow> nat \<Rightarrow> Provider" where
  "test_Provider lvl notCheckLevel obj =
     \<lparr>GetID = Fprint (PInt lvl), object = obj,
      panics = (\<lambda>oper msg. case oper of
          OpLog \<Rightarrow> if lvl < LEVEL_INFO \<or> notCheckLevel then Some (''call Log: '' @ msg) else None
        | OpDebug \<Rightarrow> if lvl < LEVEL_DEBUG \<or> notCheckLevel then Some (''call Debug: '' @ msg) else None
        | OpError \<Rightarrow> Some (''call Error: '' @ msg)
        | OpFatal \<Rightarrow> Some (''call Fatal: '' @ msg))\<rparr>"

definition providerError :: Provider where
  "providerError = test_Provider LEVEL_ERROR False 0"

definition providerInfo :: Provider where
  "providerInfo = test_Provider LEVEL_INFO False 1"

definition providerDebug :: Provider where
  "providerDebug = test_Provider LEVEL_DEBUG False 2"

text \<open>
  \<open>TelegramProvider\<close>: its identifier is the constant, and its operations hand the message
  to a goroutine and return.
\<close>

definition PROVIDER_TELEGRAM :: string where
  "PROVIDER_TELEGRAM = ''telegram''"

definition TelegramProvider :: "nat \<Rightarrow> Provider" where
  "TelegramProvider obj =
     \<lparr>GetID = PROVIDER_TELEGRAM, object = obj, panics = (\<lambda>oper msg. None)\<rparr>"

definition registered_logger :: Logger where
  "registered_logger =
     RegisterProvider providerDebug
       (RegisterProvider providerError (RegisterProvider providerInfo NewLogger))"

text \<open>The logger of the test \<open>TestAddProvider\<close> after its attach calls.\<close>

definition attached_logger :: Logger where
  "attached_logger =
     \<lparr>providers = [''1'' \<mapsto> providerInfo, ''0'' \<mapsto> providerError, ''2'' \<mapsto> providerDebug],
      logProviders = [''1''], errorProviders = [''0''], fatalProviders = [''1'', ''0''],
      debugProviders = [''2'', ''0''], level = 0, traceType = 0\<rparr>"

text \<open>A logger with a test sink and the Telegram sink, at the debug level.\<close>

definition notifier_calls :: "config_call list" where
  "notifier_calls =
     [Register providerError, Register providerDebug, Register (TelegramProvider 3),
      AddLog [''2'', ''telegram''], AddError [''0'', ''telegram''], AddFatal [''telegram''],
      AddDebug [''2'', ''telegram''], Level LEVEL_DEBUG]"

definition notifier_logger :: Logger where
  "notifier_logger =
     \<lparr>providers = [''0'' \<mapsto> providerError, ''2'' \<mapsto> providerDebug,
                   ''telegram'' \<mapsto> TelegramProvider 3],
      logProviders = [''2'', ''telegram''], errorProviders = [''0'', ''telegram''],
      fatalProviders = [''telegram''], debugProviders = [''2'', ''telegram''],
      level = 2, traceType = 0\<rparr>"

definition example_world :: World where
  "example_world = \<lparr>HOST = [], os_Hostname = ''myhost'',
     time_Now = ''2016-11-21T14:50:23+03:00'', calls = []\<rparr>"

definition example_stack :: "frame list" where
  "example_stack = [(''main.go'', 42), (''proc.go'', 283), (''asm_amd64.s'', 1700)]"

text \<open>A logger at the level of \<open>NewLogger\<close> with the Telegram sink for errors and fatals.\<close>

definition telegram_logger :: Logger where
  "telegram_logger =
     \<lparr>providers = [''telegram'' \<mapsto> TelegramProvider 3],
      logProviders = [], errorProviders = [''telegram''], fatalProviders = [''telegram''],
      debugProviders = [], level = 0, traceType = 0\<rparr>"

section \<open>Lemmas\<close>

lemma alreadyRegistred_iff: "alreadyRegistred ident idsList = (ident \<in> set idsList)"
  by (induction idsList) auto

lemma apply_attach_call: "apply_call (attach_call f provIDs) l = Inr (attach_loop f provIDs l)"
  by (cases f)
     (simp_all add: AddLogProvider_def AddErrorProvider_def AddFatalProvider_def
        AddDebugProvider_def addProvider_def select_field_def)

lemma deref_assign: "deref g (assign f v l) = (if g = f then v else deref g l)"
  by (cases f; cases g) simp_all

lemma assign_other [simp]:
  "providers (assign f v l) = providers l"
  "level (assign f v l) = level l"
  "traceType (assign f v l) = traceType l"
  by (cases f; simp)+

lemma attach_one_other [simp]:
  "providers (attach_one f ident l) = providers l"
  "level (attach_one f ident l) = level l"
  "traceType (attach_one f ident l) = traceType l"
  by (simp_all add: attach_one_def Let_def split: option.splits)

lemma attach_loop_other [simp]:
  "providers (attach_loop f ids l) = providers l"
  "level (attach_loop f ids l) = level l"
  "traceType (attach_loop f ids l) = traceType l"
  by (induction ids arbitrary: l) simp_all

lemma attach_one_deref_other: "g \<noteq> f \<Longrightarrow> deref g (attach_one f ident l) = deref g l"
  by (simp add: attach_one_def Let_def deref_assign split: option.splits)

lemma attach_loop_deref_other: "g \<noteq> f \<Longrightarrow> deref g (attach_loop f ids l) = deref g l"
  by (induction ids arbitrary: l) (simp_all add: attach_one_deref_other)

lemma attach_one_unregistered: "providers l ident = None \<Longrightarrow> attach_one f ident l = l"
  by (simp add: attach_one_def)

lemma attach_loop_unregistered:
  "set ids \<inter> dom (providers l) = {} \<Longrightarrow> attach_loop f ids l = l"
  by (induction ids arbitrary: l) (auto simp: attach_one_unregistered)

lemma attach_one_deref:
  "registry_ok l \<Longrightarrow>
   deref f (attach_one f ident l) =
     (if ident \<in> dom (providers l) \<and> ident \<notin> set (deref f l) then deref f l @ [ident]
      else deref f l)"
  by (auto simp: attach_one_def Let_def deref_assign alreadyRegistred_iff registry_ok_def
      split: option.splits)

lemma registry_ok_attach_one: "registry_ok l \<Longrightarrow> registry_ok (attach_one f ident l)"
  by (simp add: registry_ok_def)

lemma registry_ok_attach_loop: "registry_ok l \<Longrightarrow> registry_ok (attach_loop f ids l)"
  by (simp add: registry_ok_def)

lemma first_occurrences_Nil [simp]: "first_occurrences [] = []"
  by (simp add: first_occurrences_def)

lemma remdups_append_filter:
  "remdups (xs @ ys) = remdups (filter (\<lambda>x. x \<notin> set ys) xs) @ remdups ys"
  by (induction xs) auto

lemma first_occurrences_Cons:
  "first_occurrences (x # xs) = x # first_occurrences (filter (\<lambda>y. y \<noteq> x) xs)"
  using remdups_append_filter [of "rev xs" "[x]"]
  by (simp add: first_occurrences_def rev_filter)

lemma first_occurrences_append:
  "first_occurrences (xs @ ys) = first_occurrences xs @ first_occurrences (filter (\<lambda>y. y \<notin> set xs) ys)"
  using remdups_append_filter [of "rev ys" "rev xs"]
  by (simp add: first_occurrences_def rev_filter)

lemma set_first_occurrences [simp]: "set (first_occurrences xs) = set xs"
  by (simp add: first_occurrences_def)

lemma distinct_first_occurrences [simp]: "distinct (first_occurrences xs)"
  by (simp add: first_occurrences_def)

lemma attach_loop_deref:
  "registry_ok l \<Longrightarrow>
   deref f (attach_loop f ids l) =
     deref f l @ first_occurrences
       (filter (\<lambda>x. x \<in> dom (providers l) \<and> x \<notin> set (deref f l)) ids)"
proof (induction ids arbitrary: l)
  case Nil
  then show ?case by simp
next
  case (Cons ident rest)
  let ?l1 = "attach_one f ident l"
  have ok1: "registry_ok ?l1" using Cons.prems by (rule registry_ok_attach_one)
  have step: "deref f (attach_loop f (ident # rest) l) =
      deref f ?l1 @ first_occurrences
        (filter (\<lambda>x. x \<in> dom (providers l) \<and> x \<notin> set (deref f ?l1)) rest)"
    using Cons.IH [OF ok1] by simp
  show ?case
  proof (cases "ident \<in> dom (providers l) \<and> ident \<notin> set (deref f l)")
    case True
    then have d1: "deref f ?l1 = deref f l @ [ident]"
      using Cons.prems by (simp add: attach_one_deref)
    have "filter (\<lambda>x. x \<in> dom (providers l) \<and> x \<notin> set (deref f l @ [ident])) rest =
          filter (\<lambda>y. y \<noteq> ident) (filter (\<lambda>x. x \<in> dom (providers l) \<and> x \<notin> set (deref f l)) rest)"
      by (induction rest) auto
    then show ?thesis using True step d1 by (simp add: first_occurrences_Cons)
  next
    case False
    then have d1: "deref f ?l1 = deref f l"
      using Cons.prems by (simp add: attach_one_deref)
    show ?thesis using False step d1 by auto
  qed
qed

lemma attach_one_present:
  "registry_ok l \<Longrightarrow> ident \<in> set (deref f l) \<Longrightarrow> attach_one f ident l = l"
  by (auto simp: attach_one_def Let_def alreadyRegistred_iff registry_ok_def split: option.splits)

lemma deref_update_other [simp]:
  "deref f (l\<lparr>providers := m\<rparr>) = deref f l"
  "deref f (l\<lparr>level := lv\<rparr>) = deref f l"
  "deref f (l\<lparr>traceType := tt\<rparr>) = deref f l"
  by (cases f; simp)+

lemma deref_NewLogger [simp]: "deref f NewLogger = []"
  by (cases f) (simp_all add: NewLogger_def)

lemma invariant_setters [simp]:
  "registry_ok (l\<lparr>traceType := tt\<rparr>) = registry_ok l"
  "listed_registered (l\<lparr>traceType := tt\<rparr>) = listed_registered l"
  "lists_distinct (l\<lparr>traceType := tt\<rparr>) = lists_distinct l"
  "registry_ok (l\<lparr>level := lv\<rparr>) = registry_ok l"
  "listed_registered (l\<lparr>level := lv\<rparr>) = listed_registered l"
  "lists_distinct (l\<lparr>level := lv\<rparr>) = lists_distinct l"
  by (simp_all add: registry_ok_def listed_registered_def lists_distinct_def)

lemma attach_cases:
  obtains f provIDs where "c = attach_call f provIDs"
  | p where "c = Register p" | lv where "c = Level lv" | val where "c = TraceType val"
proof (cases c)
  case (AddLog x) then show ?thesis using that(1) [of LogProviders x] by simp
next
  case (AddError x) then show ?thesis using that(1) [of ErrorProviders x] by simp
next
  case (AddFatal x) then show ?thesis using that(1) [of FatalProviders x] by simp
next
  case (AddDebug x) then show ?thesis using that(1) [of DebugProviders x] by simp
qed (use that in auto)

lemma snd_SetTraceType:
  "snd (SetTraceType val l) = l \<or> snd (SetTraceType val l) = l\<lparr>traceType := val\<rparr>"
  by (simp add: SetTraceType_def)

lemma attach_loop_deref_subset:
  assumes "registry_ok l"
  shows "set (deref g (attach_loop f ids l)) \<subseteq> set (deref g l) \<union> dom (providers l)"
proof (cases "g = f")
  case True
  then show ?thesis using attach_loop_deref [OF assms, of f ids] by auto
next
  case False
  then show ?thesis by (simp add: attach_loop_deref_other)
qed

lemma attach_loop_distinct:
  assumes "registry_ok l" "distinct (deref g l)"
  shows "distinct (deref g (attach_loop f ids l))"
proof (cases "g = f")
  case True
  then show ?thesis using attach_loop_deref [OF assms(1), of f ids] assms(2) by auto
next
  case False
  then show ?thesis using assms(2) by (simp add: attach_loop_deref_other)
qed

lemma apply_call_invariant:
  assumes "registry_ok l" "listed_registered l" "lists_distinct l"
  shows "\<exists>l'. apply_call c l = Inr l' \<and> registry_ok l' \<and> listed_registered l' \<and> lists_distinct l'"
proof (cases c rule: attach_cases)
  case (1 f provIDs)
  have "set (deref g (attach_loop f provIDs l)) \<subseteq> dom (providers (attach_loop f provIDs l))" for g
  proof -
    have "set (deref g l) \<subseteq> dom (providers l)"
      using assms(2) by (simp add: listed_registered_def)
    then show ?thesis
      using attach_loop_deref_subset [OF assms(1), of g f provIDs] by auto
  qed
  then have "listed_registered (attach_loop f provIDs l)"
    by (simp add: listed_registered_def)
  moreover have "lists_distinct (attach_loop f provIDs l)"
    using assms(1,3) by (simp add: lists_distinct_def attach_loop_distinct)
  ultimately show ?thesis
    using 1 assms(1) by (simp add: apply_attach_call registry_ok_attach_loop)
next
  case (2 p)
  then show ?thesis using assms
    by (auto simp: RegisterProvider_def registry_ok_def listed_registered_def lists_distinct_def)
next
  case (3 lv)
  then show ?thesis using assms by (simp add: SetLevel_def)
next
  case (4 val)
  then show ?thesis using assms snd_SetTraceType [of val l] by auto
qed

lemma run_calls_invariant:
  assumes "registry_ok l" "listed_registered l" "lists_distinct l"
  shows "\<exists>l'. run_calls cs l = Inr l' \<and> registry_ok l' \<and> listed_registered l' \<and> lists_distinct l'"
  using assms
proof (induction cs arbitrary: l)
  case Nil
  then show ?case by simp
next
  case (Cons c cs)
  from apply_call_invariant [OF Cons.prems, of c] obtain l1 where
    l1: "apply_call c l = Inr l1" "registry_ok l1" "listed_registered l1" "lists_distinct l1"
    by blast
  from Cons.IH [OF l1(2-4)] l1(1) show ?case by simp
qed

lemma NewLogger_invariant:
  "registry_ok NewLogger" "listed_registered NewLogger" "lists_distinct NewLogger"
  by (simp_all add: registry_ok_def listed_registered_def lists_distinct_def)
     (simp add: NewLogger_def)

lemma reachable_invariant:
  "\<exists>l. run_calls cs NewLogger = Inr l \<and> registry_ok l \<and> listed_registered l \<and> lists_distinct l"
  by (rule run_calls_invariant [OF NewLogger_invariant])

lemma listed_resolve:
  assumes "registry_ok l" "set ids \<subseteq> dom (providers l)"
  shows "\<exists>ps. map (providers l) ids = map Some ps \<and> map GetID ps = ids"
  using assms(2)
proof (induction ids)
  case Nil
  then show ?case by simp
next
  case (Cons a ids)
  then obtain ps where ps: "map (providers l) ids = map Some ps" "map GetID ps = ids" by auto
  from Cons.prems obtain p where p: "providers l a = Some p" by auto
  then have "GetID p = a" using assms(1) by (simp add: registry_ok_def)
  then have "map (providers l) (a # ids) = map Some (p # ps) \<and> map GetID (p # ps) = a # ids"
    using p ps by simp
  then show ?case by (rule exI)
qed

lemma filter_notin_append:
  "filter (\<lambda>x. x \<notin> set (old @ first_occurrences (filter (\<lambda>x. x \<notin> set old) ids))) R =
   filter (\<lambda>y. y \<notin> set (filter (\<lambda>x. x \<notin> set old) ids)) (filter (\<lambda>x. x \<notin> set old) R)"
  by (induction R) auto

lemma run_attach_calls:
  assumes "registry_ok l" "\<forall>a \<in> set as. set (snd a) \<subseteq> dom (providers l)"
  shows "\<exists>l'. run_calls (map (\<lambda>a. attach_call (fst a) (snd a)) as) l = Inr l' \<and>
           (\<forall>f. deref f l' = deref f l @ first_occurrences
                  (filter (\<lambda>x. x \<notin> set (deref f l)) (concat (map snd (filter (\<lambda>a. fst a = f) as)))))"
  using assms
proof (induction as arbitrary: l)
  case Nil
  then show ?case by simp
next
  case (Cons a as)
  obtain g ids where a: "a = (g, ids)" by (cases a)
  let ?l1 = "attach_loop g ids l"
  have ok1: "registry_ok ?l1" using Cons.prems(1) by (rule registry_ok_attach_loop)
  have reg1: "\<forall>a \<in> set as. set (snd a) \<subseteq> dom (providers ?l1)"
    using Cons.prems(2) by simp
  from Cons.IH [OF ok1 reg1] obtain l' where
    run: "run_calls (map (\<lambda>a. attach_call (fst a) (snd a)) as) ?l1 = Inr l'" and
    lists: "\<And>f. deref f l' = deref f ?l1 @ first_occurrences
       (filter (\<lambda>x. x \<notin> set (deref f ?l1)) (concat (map snd (filter (\<lambda>a. fst a = f) as))))"
    by blast
  have ids: "set ids \<subseteq> dom (providers l)" using Cons.prems(2) a by simp
  then have keep: "filter (\<lambda>x. x \<in> dom (providers l) \<and> x \<notin> set (deref g l)) ids =
      filter (\<lambda>x. x \<notin> set (deref g l)) ids"
    by (intro filter_cong) auto
  have g: "deref g ?l1 = deref g l @ first_occurrences (filter (\<lambda>x. x \<notin> set (deref g l)) ids)"
    using attach_loop_deref [OF Cons.prems(1), of g ids] keep by simp
  have "deref f l' = deref f l @ first_occurrences
      (filter (\<lambda>x. x \<notin> set (deref f l)) (concat (map snd (filter (\<lambda>a. fst a = f) (a # as)))))" for f
  proof (cases "f = g")
    case True
    show ?thesis
      using lists [of g] True a
      by (simp add: g first_occurrences_append filter_notin_append)
  next
    case False
    then show ?thesis using lists [of f] a by (simp add: attach_loop_deref_other)
  qed
  then show ?case using run a by (simp add: apply_attach_call)
qed

lemma dispatch_call_all:
  "dispatch oper l ids msg w = call_all oper (listed_sinks l ids) msg w"
  by (induction ids arbitrary: w) (simp_all add: listed_sinks_def Let_def split: option.splits)

lemma call_all_returns:
  "\<forall>p \<in> set ps. panics p oper msg = None \<Longrightarrow>
   call_all oper ps msg w = Returned (w\<lparr>calls := calls w @ map (\<lambda>p. Call oper p msg) ps\<rparr>)"
  by (induction ps arbitrary: w) simp_all

lemma call_all_panics:
  "\<forall>q \<in> set qs. panics q oper msg = None \<Longrightarrow> panics p oper msg = Some v \<Longrightarrow>
   call_all oper (qs @ p # rs) msg w =
     Panicked v (w\<lparr>calls := calls w @ map (\<lambda>p. Call oper p msg) (qs @ [p])\<rparr>)"
  by (induction qs arbitrary: w) simp_all

lemma listed_sinks_all: "map (providers l) ids = map Some ps \<Longrightarrow> listed_sinks l ids = ps"
  by (induction ids arbitrary: ps) (auto simp: listed_sinks_def)

lemma listed_sinks_Nil [simp]: "listed_sinks l [] = []"
  by (simp add: listed_sinks_def)

lemma makeMessage_calls:
  "makeMessage typeLog err tt stk w = (msg, w1) \<Longrightarrow> calls w1 = calls w"
  by (auto simp: makeMessage_def Let_def)

lemma Fatal_call_all:
  "Fatal l stk messageParts w =
     (case call_all OpFatal (listed_sinks l (fatalProviders l))
             (fst (makeMessage ''FATAL'' messageParts (traceType l) ((''logger.go'', 180) # stk) w))
             (snd (makeMessage ''FATAL'' messageParts (traceType l) ((''logger.go'', 180) # stk) w)) of
        Returned w2 \<Rightarrow> Exited 1 w2
      | Panicked v w2 \<Rightarrow> Panicked v w2
      | Exited c w2 \<Rightarrow> Exited c w2)"
  by (simp add: Fatal_def split_beta dispatch_call_all)

lemma Error_call_all:
  "Error l stk messageParts w =
     call_all OpError (listed_sinks l (errorProviders l))
       (fst (makeMessage ''ERROR'' messageParts (traceType l) ((''logger.go'', 144) # stk) w))
       (snd (makeMessage ''ERROR'' messageParts (traceType l) ((''logger.go'', 144) # stk) w))"
  by (simp add: Error_def split_beta dispatch_call_all)

lemma Log_call_all:
  "Log l stk messageParts w =
     (if level l < LEVEL_INFO then Returned w
      else call_all OpLog (listed_sinks l (logProviders l))
        (fst (makeMessage ''LOG'' messageParts (traceType l) ((''logger.go'', 129) # stk) w))
        (snd (makeMessage ''LOG'' messageParts (traceType l) ((''logger.go'', 129) # stk) w)))"
  by (simp add: Log_def split_beta dispatch_call_all)

lemma Debug_call_all:
  "Debug l stk messageParts w =
     (if level l < LEVEL_DEBUG then Returned w
      else call_all OpDebug (listed_sinks l (debugProviders l))
        (fst (makeMessage ''DEBUG'' messageParts (traceType l) ((''logger.go'', 166) # stk) w))
        (snd (makeMessage ''DEBUG'' messageParts (traceType l) ((''logger.go'', 166) # stk) w)))"
  by (simp add: Debug_def split_beta dispatch_call_all)

lemma lookup_MESSAGE_REPLACER:
  "lookup MESSAGE_REPLACER e (c # cs) =
     (if c = CR then Some ([CR], []) else if c = LF then Some ([LF], [TAB]) else None)"
  by (simp add: MESSAGE_REPLACER_def HasPrefix_def)

lemma Replace_from_MESSAGE_REPLACER:
  "Replace_from MESSAGE_REPLACER e s =
     concat (map (\<lambda>c. if c = CR then [] else if c = LF then [TAB] else [c]) s)"
proof (induction s arbitrary: e)
  case Nil
  show ?case
    by (subst Replace_from.simps) (simp add: MESSAGE_REPLACER_def HasPrefix_def)
next
  case (Cons c cs)
  show ?case
    by (subst Replace_from.simps) (simp add: lookup_MESSAGE_REPLACER Cons.IH)
qed

lemma Replace_MESSAGE_REPLACER:
  "Replace MESSAGE_REPLACER s =
     concat (map (\<lambda>c. if c = CR then [] else if c = LF then [TAB] else [c]) s)"
  by (simp add: Replace_def Replace_from_MESSAGE_REPLACER)

lemma write_parts_later:
  "0 < i \<Longrightarrow> write_parts i ps msg = msg @ concat (map (\<lambda>p. MESSAGE_SEPARATOR @ Fprint p) ps)"
  by (induction ps arbitrary: i msg) simp_all

lemma Join_Cons: "Join (x # xs) sep = x @ concat (map (\<lambda>y. sep @ y) xs)"
  by (induction xs arbitrary: x) simp_all

lemma write_parts_Join: "write_parts 0 ps [] = Join (map Fprint ps) '' ''"
proof (cases ps)
  case Nil
  then show ?thesis by simp
next
  case (Cons p ps')
  then show ?thesis
    by (simp add: write_parts_later Join_Cons MESSAGE_SEPARATOR_def comp_def)
qed

lemma LF_notin_body: "LF \<notin> set (Replace MESSAGE_REPLACER s)"
  by (auto simp: Replace_MESSAGE_REPLACER LF_def TAB_def split: if_splits)

lemma Replace_MESSAGE_REPLACER_append:
  "Replace MESSAGE_REPLACER (xs @ ys) = Replace MESSAGE_REPLACER xs @ Replace MESSAGE_REPLACER ys"
  by (simp add: Replace_MESSAGE_REPLACER)

lemma message_body_single: "message_body [PString s] = Replace MESSAGE_REPLACER s"
  by (simp add: message_body_def)

lemma Output_shortfile_header: "Output_shortfile stk i = header (frame_at stk i)"
  by (simp add: Output_shortfile_def header_def location_def frame_at_def split_beta)

lemma itoa_nonempty: "itoa n \<noteq> []"
  by (subst itoa.simps) simp

lemma digit_in: "d < 10 \<Longrightarrow> digit d \<in> set ''0123456789''"
  unfolding digit_def by (rule nth_mem) simp

lemma itoa_digits: "set (itoa n) \<subseteq> set ''0123456789''"
proof (induction n rule: itoa.induct)
  case (1 n)
  show ?case
  proof (cases "n < 10")
    case True
    then show ?thesis using digit_in [of n] by (subst itoa.simps) simp
  next
    case False
    have "digit (n mod 10) \<in> set ''0123456789''" by (rule digit_in) simp
    then show ?thesis using False 1 by (subst itoa.simps) simp
  qed
qed

lemma colon_prefix:
  "CHR '':'' \<notin> set nm \<Longrightarrow> CHR '':'' \<notin> set p \<Longrightarrow>
   HasPrefix (nm @ CHR '':'' # rest) (p @ '':'') = (nm = p)"
proof (induction nm arbitrary: p)
  case Nil
  then show ?case by (cases p) (auto simp: HasPrefix_def)
next
  case (Cons a nm)
  show ?case
  proof (cases p)
    case Nil
    then show ?thesis using Cons.prems by (auto simp: HasPrefix_def)
  next
    case (Cons b p')
    then show ?thesis using Cons.IH [of p'] Cons.prems by (auto simp: HasPrefix_def)
  qed
qed

lemma header_prefix:
  assumes "plain_name (fst fr)"
  shows "HasPrefix (header fr) ''logger.go:'' = (fst fr = ''logger.go'')"
    and "HasPrefix (header fr) ''testing.go:'' = (fst fr = ''testing.go'')"
  using assms colon_prefix [of "fst fr" "''logger.go''" "itoa (snd fr) @ '': '' @ [LF]"]
    colon_prefix [of "fst fr" "''testing.go''" "itoa (snd fr) @ '': '' @ [LF]"]
  by (simp_all add: header_def location_def plain_name_def)

lemma frames_loop_recorded:
  "\<forall>i \<in> set is. plain_name (fst (frame_at stk i)) \<Longrightarrow>
   frames_loop tt stk is lineBuf = lineBuf @ concat (map header (recorded tt (map (frame_at stk) is)))"
proof (induction "is" arbitrary: lineBuf)
  case Nil
  then show ?case by (simp add: recorded_def external_frames_def)
next
  case (Cons i rest)
  then have pl: "plain_name (fst (frame_at stk i))" by simp
  have IH: "frames_loop tt stk rest b = b @ concat (map header (recorded tt (map (frame_at stk) rest)))" for b
    using Cons by simp
  show ?case
    by (auto simp: Output_shortfile_header header_prefix [OF pl] IH Let_def recorded_def
        external_frames_def)
qed

lemma lookup_LINE_other:
  "c \<noteq> CHR '' '' \<Longrightarrow> c \<noteq> LF \<Longrightarrow> CHR '' '' \<notin> set s \<Longrightarrow>
   lookup LOGGER_LINE_REPLACER e (c # s @ '': '' @ [LF] @ rest) = None"
  by (cases s) (auto simp: LOGGER_LINE_REPLACER_def HasPrefix_def)

lemma Replace_from_LINE_entry:
  "CHR '' '' \<notin> set s \<Longrightarrow> LF \<notin> set s \<Longrightarrow>
   Replace_from LOGGER_LINE_REPLACER e (s @ '': '' @ [LF] @ rest) =
     s @ '', '' @ Replace_from LOGGER_LINE_REPLACER False rest"
proof (induction s arbitrary: e)
  case Nil
  have "Replace_from LOGGER_LINE_REPLACER e ('': '' @ [LF] @ rest) =
        Replace_from LOGGER_LINE_REPLACER False (LF # rest)"
    by (subst Replace_from.simps) (simp add: LOGGER_LINE_REPLACER_def HasPrefix_def)
  also have "\<dots> = '', '' @ Replace_from LOGGER_LINE_REPLACER False rest"
    by (subst Replace_from.simps) (simp add: LOGGER_LINE_REPLACER_def HasPrefix_def LF_def)
  finally show ?case by simp
next
  case (Cons c s)
  have "lookup LOGGER_LINE_REPLACER e (c # (s @ '': '' @ [LF] @ rest)) = None"
    using Cons.prems by (intro lookup_LINE_other) auto
  then have "Replace_from LOGGER_LINE_REPLACER e ((c # s) @ '': '' @ [LF] @ rest) =
      c # Replace_from LOGGER_LINE_REPLACER False (s @ '': '' @ [LF] @ rest)"
    by (subst Replace_from.simps) simp
  then show ?case using Cons by simp
qed

lemma Replace_from_LINE_Nil: "Replace_from LOGGER_LINE_REPLACER False [] = []"
  by (subst Replace_from.simps) (simp add: LOGGER_LINE_REPLACER_def HasPrefix_def)

lemma location_chars:
  assumes "plain_name (fst fr)"
  shows "CHR '' '' \<notin> set (location fr)" "LF \<notin> set (location fr)"
    "location fr \<noteq> []" "last (location fr) \<notin> set '', ''"
proof -
  have d: "set (itoa (snd fr)) \<subseteq> set ''0123456789''" by (rule itoa_digits)
  show "CHR '' '' \<notin> set (location fr)" "LF \<notin> set (location fr)"
    using assms d by (auto simp: location_def plain_name_def LF_def)
  show "location fr \<noteq> []" by (simp add: location_def)
  have "last (location fr) = last (itoa (snd fr))"
    by (simp add: location_def itoa_nonempty)
  moreover have "last (itoa (snd fr)) \<in> set (itoa (snd fr))"
    by (simp add: itoa_nonempty)
  ultimately show "last (location fr) \<notin> set '', ''" using d by auto
qed

lemma Replace_LINE_headers:
  "\<forall>fr \<in> set frs. plain_name (fst fr) \<Longrightarrow>
   Replace_from LOGGER_LINE_REPLACER False (concat (map header frs)) =
     concat (map (\<lambda>fr. location fr @ '', '') frs)"
proof (induction frs)
  case Nil
  show ?case by (simp add: Replace_from_LINE_Nil)
next
  case (Cons fr frs)
  then have "plain_name (fst fr)" by simp
  note lc = location_chars [OF this]
  have "Replace_from LOGGER_LINE_REPLACER False (concat (map header (fr # frs))) =
        Replace_from LOGGER_LINE_REPLACER False
          (location fr @ '': '' @ [LF] @ concat (map header frs))"
    by (simp add: header_def)
  also have "\<dots> = location fr @ '', '' @
        Replace_from LOGGER_LINE_REPLACER False (concat (map header frs))"
    by (rule Replace_from_LINE_entry [OF lc(1,2)])
  also have "\<dots> = location fr @ '', '' @ concat (map (\<lambda>fr. location fr @ '', '') frs)"
    using Cons by simp
  finally show ?case by simp
qed

lemma Join_last:
  "xs \<noteq> [] \<Longrightarrow> \<forall>x \<in> set xs. x \<noteq> [] \<Longrightarrow> Join xs sep \<noteq> [] \<and> last (Join xs sep) = last (last xs)"
  by (induction xs sep rule: Join.induct) auto

lemma concat_sep_Join: "xs \<noteq> [] \<Longrightarrow> concat (map (\<lambda>x. x @ sep) xs) = Join xs sep @ sep"
  by (induction xs sep rule: Join.induct) auto

lemma TrimRight_append:
  "y \<noteq> [] \<Longrightarrow> last y \<notin> set cutset \<Longrightarrow> set sep \<subseteq> set cutset \<Longrightarrow> TrimRight (y @ sep) cutset = y"
  by (cases y rule: rev_cases) (auto simp: TrimRight_def dropWhile_append)

lemma TrimRight_entries:
  assumes "\<forall>x \<in> set xs. x \<noteq> [] \<and> last x \<notin> set '', ''"
  shows "TrimRight (concat (map (\<lambda>x. x @ '', '') xs)) '', '' = Join xs '', ''"
proof (cases xs)
  case Nil
  then show ?thesis by (simp add: TrimRight_def)
next
  case (Cons a as)
  then have ne: "xs \<noteq> []" by simp
  have "Join xs '', '' \<noteq> []" "last (Join xs '', '') = last (last xs)"
    using Join_last [OF ne, of "'', ''"] assms by auto
  moreover have "last (last xs) \<notin> set '', ''"
    using assms ne last_in_set [OF ne] by blast
  ultimately show ?thesis
    using TrimRight_append [of "Join xs '', ''" "'', ''" "'', ''"]
    by (simp add: concat_sep_Join [OF ne])
qed

lemma plain_name_frame_at:
  assumes "\<forall>fr \<in> set (take 4 stk). plain_name (fst fr)" and "i < 6"
  shows "plain_name (fst (frame_at stk i))"
proof (cases "2 \<le> i \<and> i - 2 < length stk")
  case True
  then have "i - 2 < length (take 4 stk)" using assms(2) by simp
  then have "take 4 stk ! (i - 2) \<in> set (take 4 stk)" by (rule nth_mem)
  moreover have "take 4 stk ! (i - 2) = stk ! (i - 2)" using assms(2) by simp
  ultimately have "stk ! (i - 2) \<in> set (take 4 stk)" by simp
  then show ?thesis using True assms(1) by (simp add: frame_at_def Caller_def)
next
  case False
  then show ?thesis by (auto simp: frame_at_def Caller_def plain_name_def LF_def)
qed

lemma set_recorded: "set (recorded tt frs) \<subseteq> set frs"
proof -
  have "set (external_frames frs) \<subseteq> set frs"
    by (auto simp: external_frames_def dest: set_takeWhileD)
  then show ?thesis
    using set_take_subset [of 1 "external_frames frs"] by (auto simp: recorded_def)
qed

lemma line_of_loop:
  assumes "\<forall>i \<in> set is. plain_name (fst (frame_at stk i))"
  shows "TrimRight (Replace LOGGER_LINE_REPLACER (frames_loop tt stk is [])) '', '' =
     Join (map location (recorded tt (map (frame_at stk) is))) '', ''"
proof -
  let ?rec = "recorded tt (map (frame_at stk) is)"
  have "set ?rec \<subseteq> frame_at stk ` set is"
    using set_recorded [of tt "map (frame_at stk) is"] by simp
  then have pl: "\<forall>fr \<in> set ?rec. plain_name (fst fr)"
    using assms by auto
  have loop: "frames_loop tt stk is [] = concat (map header ?rec)"
    using frames_loop_recorded [of "is" stk tt "[]"] assms by simp
  have "Replace LOGGER_LINE_REPLACER (frames_loop tt stk is []) =
      concat (map (\<lambda>x. x @ '', '') (map location ?rec))"
    by (simp add: Replace_def loop Replace_LINE_headers [OF pl] comp_def)
  moreover have "\<forall>x \<in> set (map location ?rec). x \<noteq> [] \<and> last x \<notin> set '', ''"
  proof
    fix x assume "x \<in> set (map location ?rec)"
    then obtain fr where fr: "fr \<in> set ?rec" "x = location fr" by auto
    then have "plain_name (fst fr)" using pl by simp
    from location_chars(3,4) [OF this] fr(2)
    show "x \<noteq> [] \<and> last x \<notin> set '', ''" by simp
  qed
  then have "TrimRight (concat (map (\<lambda>x. x @ '', '') (map location ?rec))) '', '' =
      Join (map location ?rec) '', ''"
    by (rule TrimRight_entries)
  ultimately show ?thesis by simp
qed

lemma frames_window:
  "map (frame_at stk) [2..<6] = take 4 (stk @ replicate 4 (''???'', 0))"
proof -
  define xs where "xs = stk @ replicate 4 (''???'', 0::nat)"
  have at: "frame_at stk i = xs ! (i - 2)" if "2 \<le> i" "i < 6" for i
    using that by (simp add: xs_def frame_at_def Caller_def nth_append)
  have "4 \<le> length xs" by (simp add: xs_def)
  then obtain a b c d r where xs: "xs = a # b # c # d # r"
    by (auto simp: Suc_le_length_iff eval_nat_numeral)
  have "frame_at stk 2 = a" "frame_at stk 3 = b" "frame_at stk 4 = c" "frame_at stk 5 = d"
    using at [of 2] at [of 3] at [of 4] at [of 5] by (simp_all add: xs)
  then have "map (frame_at stk) [2..<6] = take 4 xs"
    by (simp add: xs)
  then show ?thesis by (simp add: xs_def)
qed

lemma trace_line_window:
  assumes "\<forall>fr \<in> set (take 4 stk). plain_name (fst fr)"
  shows "trace_line tt stk =
     Join (map location (recorded tt (take 4 (stk @ replicate 4 (''???'', 0))))) '', ''"
proof -
  have "\<forall>i \<in> set [2..<6]. plain_name (fst (frame_at stk i))"
    using plain_name_frame_at [OF assms] by simp
  from line_of_loop [OF this, of tt] show ?thesis
    unfolding trace_line_def frames_window .
qed

lemma external_frames_boundary:
  "\<exists>fr \<in> set xs. fst fr = ''testing.go'' \<Longrightarrow> external_frames (xs @ ys) = external_frames xs"
  by (auto simp: external_frames_def)

lemma external_frames_append:
  "\<exists>zs. external_frames (xs @ ys) = external_frames xs @ zs"
proof (cases "\<exists>fr \<in> set xs. fst fr = ''testing.go''")
  case True
  from external_frames_boundary [OF this] show ?thesis by simp
next
  case False
  let ?P = "\<lambda>fr::frame. fst fr \<noteq> ''testing.go''"
  let ?Q = "\<lambda>fr::frame. fst fr \<noteq> ''logger.go''"
  have app: "takeWhile ?P (xs @ ys) = xs @ takeWhile ?P ys"
    using False by (intro takeWhile_append2) auto
  have tw: "takeWhile ?P xs = xs"
    using False by (intro takeWhile_eq_all_conv [THEN iffD2]) auto
  have e: "external_frames xs = filter ?Q xs"
    by (simp only: external_frames_def tw)
  have "external_frames (xs @ ys) = filter ?Q xs @ filter ?Q (takeWhile ?P ys)"
    by (simp only: external_frames_def app filter_append)
  then have "external_frames (xs @ ys) = external_frames xs @ filter ?Q (takeWhile ?P ys)"
    by (simp only: e)
  then show ?thesis by (rule exI)
qed

lemma window_full:
  assumes "4 \<le> length stk \<or> (\<exists>fr \<in> set (take 4 stk). fst fr = ''testing.go'')"
  shows "external_frames (take 4 (stk @ replicate 4 (''???'', 0))) = external_frames (take 4 stk)"
proof (cases "4 \<le> length stk")
  case True
  then show ?thesis by simp
next
  case False
  with assms have "\<exists>fr \<in> set (take 4 stk). fst fr = ''testing.go''" by simp
  from external_frames_boundary [OF this]
  show ?thesis by simp
qed

lemma window_single:
  assumes "external_frames (take 4 stk) \<noteq> []"
  shows "take 1 (external_frames (take 4 (stk @ replicate 4 (''???'', 0)))) =
         take 1 (external_frames (take 4 stk))"
proof -
  have "take 4 (stk @ replicate 4 (''???'', 0::nat)) =
      take 4 stk @ take (4 - length stk) (replicate 4 (''???'', 0))"
    by simp
  with external_frames_append [of "take 4 stk" "take (4 - length stk) (replicate 4 (''???'', 0))"]
  obtain zs where "external_frames (take 4 (stk @ replicate 4 (''???'', 0::nat))) =
      external_frames (take 4 stk) @ zs"
    by auto
  then show ?thesis using assms by (cases "external_frames (take 4 stk)") simp_all
qed

lemma example_ids [simp]:
  "GetID providerError = ''0''" "GetID providerInfo = ''1''" "GetID providerDebug = ''2''"
  "GetID (TelegramProvider obj) = ''telegram''"
  by (simp_all add: providerError_def providerInfo_def providerDebug_def test_Provider_def
      TelegramProvider_def PROVIDER_TELEGRAM_def LEVEL_ERROR_def LEVEL_INFO_def LEVEL_DEBUG_def
      itoa.simps digit_def)

lemma example_panics [simp]:
  "panics providerError OpError msg = Some (''call Error: '' @ msg)"
  "panics providerError OpFatal msg = Some (''call Fatal: '' @ msg)"
  "panics providerInfo OpFatal msg = Some (''call Fatal: '' @ msg)"
  "panics providerDebug OpLog msg = None"
  "panics providerDebug OpDebug msg = None"
  "panics (TelegramProvider obj) oper msg = None"
  by (simp_all add: providerError_def providerInfo_def providerDebug_def test_Provider_def
      TelegramProvider_def LEVEL_INFO_def LEVEL_DEBUG_def)

lemma registered_logger_run:
  "run_calls [Register providerInfo, Register providerError, Register providerDebug] NewLogger =
     Inr registered_logger"
  by (simp add: registered_logger_def)

lemma attached_logger_run:
  "run_calls [Register providerInfo, Register providerError, Register providerDebug,
      AddError [''0''], AddLog [''1'', ''1''], AddFatal [''1'', ''0''],
      AddDebug [''2'', ''2'', ''0'']] NewLogger = Inr attached_logger"
  by (simp add: attached_logger_def RegisterProvider_def NewLogger_def
      AddErrorProvider_def AddLogProvider_def AddFatalProvider_def AddDebugProvider_def
      addProvider_def select_field_def attach_one_def Let_def)

lemma notifier_logger_run: "run_calls notifier_calls NewLogger = Inr notifier_logger"
  by (simp add: notifier_calls_def notifier_logger_def RegisterProvider_def NewLogger_def
      AddErrorProvider_def AddLogProvider_def AddFatalProvider_def AddDebugProvider_def
      addProvider_def select_field_def attach_one_def Let_def SetLevel_def LEVEL_DEBUG_def)

lemma providers_registered_logger:
  "providers registered_logger =
     [''1'' \<mapsto> providerInfo, ''0'' \<mapsto> providerError, ''2'' \<mapsto> providerDebug]"
  by (simp add: registered_logger_def RegisterProvider_def NewLogger_def)

lemma deref_registered_logger: "deref f registered_logger = []"
  by (simp add: registered_logger_def RegisterProvider_def)

lemma LOG_message_example:
  "makeMessage ''LOG'' [PString ''text''] 0 ((''logger.go'', 129) # example_stack) example_world =
     (''LOG: 2016-11-21T14:50:23+03:00 myhost main.go:42: text'',
      example_world\<lparr>HOST := ''myhost''\<rparr>)"
  by (simp add: makeMessage_def example_world_def example_stack_def message_body_def
      trace_line_def Output_shortfile_def Caller_def HasPrefix_def itoa.simps digit_def
      Replace_def Replace_from.simps LOGGER_LINE_REPLACER_def MESSAGE_REPLACER_def
      MESSAGE_SEPARATOR_def LF_def CR_def TAB_def TrimRight_def Output_prefix_def
      TRACE_TYPE_ONE_def)

lemma DEBUG_message_example:
  "makeMessage ''DEBUG'' [PString ''text''] 0 ((''logger.go'', 166) # example_stack) example_world =
     (''DEBUG: 2016-11-21T14:50:23+03:00 myhost main.go:42: text'',
      example_world\<lparr>HOST := ''myhost''\<rparr>)"
  by (simp add: makeMessage_def example_world_def example_stack_def message_body_def
      trace_line_def Output_shortfile_def Caller_def HasPrefix_def itoa.simps digit_def
      Replace_def Replace_from.simps LOGGER_LINE_REPLACER_def MESSAGE_REPLACER_def
      MESSAGE_SEPARATOR_def LF_def CR_def TAB_def TrimRight_def Output_prefix_def
      TRACE_TYPE_ONE_def)

lemma ERROR_message_example:
  "makeMessage ''ERROR'' [PString ''text''] 0 ((''logger.go'', 144) # example_stack) example_world =
     (''ERROR: 2016-11-21T14:50:23+03:00 myhost main.go:42: text'',
      example_world\<lparr>HOST := ''myhost''\<rparr>)"
  by (simp add: makeMessage_def example_world_def example_stack_def message_body_def
      trace_line_def Output_shortfile_def Caller_def HasPrefix_def itoa.simps digit_def
      Replace_def Replace_from.simps LOGGER_LINE_REPLACER_def MESSAGE_REPLACER_def
      MESSAGE_SEPARATOR_def LF_def CR_def TAB_def TrimRight_def Output_prefix_def
      TRACE_TYPE_ONE_def)

lemma FATAL_message_example:
  "makeMessage ''FATAL'' [PString ''text''] 0 ((''logger.go'', 180) # example_stack) example_world =
     (''FATAL: 2016-11-21T14:50:23+03:00 myhost main.go:42: text'',
      example_world\<lparr>HOST := ''myhost''\<rparr>)"
  by (simp add: makeMessage_def example_world_def example_stack_def message_body_def
      trace_line_def Output_shortfile_def Caller_def HasPrefix_def itoa.simps digit_def
      Replace_def Replace_from.simps LOGGER_LINE_REPLACER_def MESSAGE_REPLACER_def
      MESSAGE_SEPARATOR_def LF_def CR_def TAB_def TrimRight_def Output_prefix_def
      TRACE_TYPE_ONE_def)

lemma listed_sinks_examples:
  "listed_sinks attached_logger [''1'', ''0''] = [providerInfo, providerError]"
  "listed_sinks notifier_logger [''2'', ''telegram''] = [providerDebug, TelegramProvider 3]"
  "listed_sinks notifier_logger [''0'', ''telegram''] = [providerError, TelegramProvider 3]"
  "listed_sinks notifier_logger [''telegram''] = [TelegramProvider 3]"
  by (simp_all add: listed_sinks_def attached_logger_def notifier_logger_def)

lemma example_fields [simp]:
  "traceType attached_logger = 0" "fatalProviders attached_logger = [''1'', ''0'']"
  "level attached_logger = 0"
  "traceType notifier_logger = 0" "level notifier_logger = 2"
  "logProviders notifier_logger = [''2'', ''telegram'']"
  "errorProviders notifier_logger = [''0'', ''telegram'']"
  "fatalProviders notifier_logger = [''telegram'']"
  "debugProviders notifier_logger = [''2'', ''telegram'']"
  "calls example_world = []"
  by (simp_all add: attached_logger_def notifier_logger_def example_world_def)

lemma telegram_logger_run:
  "run_calls [Register (TelegramProvider 3), AddError [''telegram''], AddFatal [''telegram'']]
     NewLogger = Inr telegram_logger"
  by (simp add: telegram_logger_def RegisterProvider_def NewLogger_def
      AddErrorProvider_def AddFatalProvider_def addProvider_def select_field_def attach_one_def
      Let_def)

lemma telegram_logger_fields [simp]:
  "traceType telegram_logger = 0" "level telegram_logger = 0"
  "errorProviders telegram_logger = [''telegram'']"
  "fatalProviders telegram_logger = [''telegram'']"
  "listed_sinks telegram_logger [''telegram''] = [TelegramProvider 3]"
  by (simp_all add: telegram_logger_def listed_sinks_def)

section \<open>Properties\<close>

subsection \<open>Dispatch\<close>

text \<open>
  C1, as amended. For every logger, level, caller stack and message, \<open>Fatal\<close> builds the
  message tagged FATAL and calls the \<open>Fatal\<close> operation of the sinks of \<open>fatalProviders\<close> in
  the order of that list. If none of these operations panics, every one of the sinks is
  called and then the process exits with status 1; with an empty list it exits at once. If
  one of them panics, the sinks up to that one have been called, the sinks after it are not,
  and the panic leaves \<open>Fatal\<close>: the process does not exit there. \<open>Fatalf\<close> is \<open>Fatal\<close> on the
  formatted text. Where every listed identifier resolves in the registry, the sinks are the
  registry's entries for all of them.
\<close>

theorem Fatal_exits_unless_a_sink_panics:
  assumes "makeMessage ''FATAL'' messageParts (traceType l) ((''logger.go'', 180) # stk) w =
             (msg, w1)"
  shows "((\<forall>p \<in> set (listed_sinks l (fatalProviders l)). panics p OpFatal msg = None) \<longrightarrow>
            Fatal l stk messageParts w =
              Exited 1 (w1\<lparr>calls := calls w @
                 map (\<lambda>p. Call OpFatal p msg) (listed_sinks l (fatalProviders l))\<rparr>)) \<and>
         (listed_sinks l (fatalProviders l) = qs @ p # rs \<and>
          (\<forall>q \<in> set qs. panics q OpFatal msg = None) \<and> panics p OpFatal msg = Some v \<longrightarrow>
            Fatal l stk messageParts w =
              Panicked v (w1\<lparr>calls := calls w @ map (\<lambda>p. Call OpFatal p msg) (qs @ [p])\<rparr>)) \<and>
         (fatalProviders l = [] \<longrightarrow> Fatal l stk messageParts w = Exited 1 w1) \<and>
         (map (providers l) (fatalProviders l) = map Some ps \<longrightarrow>
            listed_sinks l (fatalProviders l) = ps) \<and>
         Fatalf Sprintf l stk format params w =
           Fatal l ((''logger.go'', 176) # stk) [PString (Sprintf format params)] w"
proof -
  have c: "calls w1 = calls w" using assms by (rule makeMessage_calls)
  have F: "Fatal l stk messageParts w =
     (case call_all OpFatal (listed_sinks l (fatalProviders l)) msg w1 of
        Returned w2 \<Rightarrow> Exited 1 w2
      | Panicked v w2 \<Rightarrow> Panicked v w2
      | Exited c w2 \<Rightarrow> Exited c w2)"
    by (simp add: Fatal_call_all assms)
  have "Fatal l stk messageParts w =
      Exited 1 (w1\<lparr>calls := calls w @
         map (\<lambda>p. Call OpFatal p msg) (listed_sinks l (fatalProviders l))\<rparr>)"
    if "\<forall>p \<in> set (listed_sinks l (fatalProviders l)). panics p OpFatal msg = None"
    by (simp add: F call_all_returns [OF that] c)
  moreover have "Fatal l stk messageParts w =
      Panicked v (w1\<lparr>calls := calls w @ map (\<lambda>p. Call OpFatal p msg) (qs @ [p])\<rparr>)"
    if "listed_sinks l (fatalProviders l) = qs @ p # rs \<and>
        (\<forall>q \<in> set qs. panics q OpFatal msg = None) \<and> panics p OpFatal msg = Some v"
  proof -
    from that have "call_all OpFatal (listed_sinks l (fatalProviders l)) msg w1 =
        Panicked v (w1\<lparr>calls := calls w1 @ map (\<lambda>p. Call OpFatal p msg) (qs @ [p])\<rparr>)"
      using call_all_panics [of qs OpFatal msg p v rs w1] by simp
    then show ?thesis by (simp add: F c)
  qed
  moreover have "Fatal l stk messageParts w = Exited 1 w1" if "fatalProviders l = []"
    using that by (simp add: F)
  moreover have "listed_sinks l (fatalProviders l) = ps"
    if "map (providers l) (fatalProviders l) = map Some ps"
    using that by (rule listed_sinks_all)
  moreover have "Fatalf Sprintf l stk format params w =
      Fatal l ((''logger.go'', 176) # stk) [PString (Sprintf format params)] w"
    by (simp add: Fatalf_def)
  ultimately show ?thesis by blast
qed

theorem Fatal_exits_unless_a_sink_panics_witness:
  "Fatal telegram_logger example_stack [PString ''text''] example_world =
     Exited 1 (example_world\<lparr>HOST := ''myhost'', calls :=
       [Call OpFatal (TelegramProvider 3)
          ''FATAL: 2016-11-21T14:50:23+03:00 myhost main.go:42: text'']\<rparr>) \<and>
   Fatal NewLogger example_stack [PString ''text''] example_world =
     Exited 1 (example_world\<lparr>HOST := ''myhost''\<rparr>) \<and>
   Fatal attached_logger example_stack [PString ''text''] example_world =
     Panicked ''call Fatal: FATAL: 2016-11-21T14:50:23+03:00 myhost main.go:42: text''
       (example_world\<lparr>HOST := ''myhost'', calls :=
          [Call OpFatal providerInfo
             ''FATAL: 2016-11-21T14:50:23+03:00 myhost main.go:42: text'']\<rparr>)"
proof -
  let ?msg = "''FATAL: 2016-11-21T14:50:23+03:00 myhost main.go:42: text''"
  let ?w1 = "example_world\<lparr>HOST := ''myhost''\<rparr>"
  have new: "traceType NewLogger = 0" "fatalProviders NewLogger = []"
    by (simp_all add: NewLogger_def)
  have m1: "makeMessage ''FATAL'' [PString ''text''] (traceType telegram_logger)
      ((''logger.go'', 180) # example_stack) example_world = (?msg, ?w1)"
    and m2: "makeMessage ''FATAL'' [PString ''text''] (traceType NewLogger)
      ((''logger.go'', 180) # example_stack) example_world = (?msg, ?w1)"
    and m3: "makeMessage ''FATAL'' [PString ''text''] (traceType attached_logger)
      ((''logger.go'', 180) # example_stack) example_world = (?msg, ?w1)"
    by (simp_all add: new FATAL_message_example)
  have split: "listed_sinks attached_logger (fatalProviders attached_logger) =
      [] @ providerInfo # [providerError]"
    by (simp add: listed_sinks_examples)
  from Fatal_exits_unless_a_sink_panics [OF m1]
  have "Fatal telegram_logger example_stack [PString ''text''] example_world =
      Exited 1 (?w1\<lparr>calls := [Call OpFatal (TelegramProvider 3) ?msg]\<rparr>)"
    by simp
  moreover from Fatal_exits_unless_a_sink_panics [OF m2]
  have "Fatal NewLogger example_stack [PString ''text''] example_world = Exited 1 ?w1"
    by (simp add: new)
  moreover from Fatal_exits_unless_a_sink_panics [OF m3, of "[]" providerInfo "[providerError]"
      "''call Fatal: '' @ ?msg"] split
  have "Fatal attached_logger example_stack [PString ''text''] example_world =
      Panicked (''call Fatal: '' @ ?msg) (?w1\<lparr>calls := [Call OpFatal providerInfo ?msg]\<rparr>)"
    by simp
  ultimately show ?thesis by simp
qed

text \<open>
  C1 as stated fails: with the two test sinks of \<open>TestAddProvider\<close> in the fatal list, the
  first sink is called and panics, the second is not called, and \<open>Fatal\<close> ends in the
  panic, not in an exit.
\<close>

theorem Fatal_panicking_sink_counterexample:
  "Fatal attached_logger example_stack [PString ''text''] example_world =
     Panicked ''call Fatal: FATAL: 2016-11-21T14:50:23+03:00 myhost main.go:42: text''
       (example_world\<lparr>HOST := ''myhost'', calls :=
          [Call OpFatal providerInfo
             ''FATAL: 2016-11-21T14:50:23+03:00 myhost main.go:42: text'']\<rparr>) \<and>
   Fatal attached_logger example_stack [PString ''text''] example_world \<noteq>
     Exited 1 (example_world\<lparr>HOST := ''myhost'', calls :=
       [Call OpFatal providerInfo ''FATAL: 2016-11-21T14:50:23+03:00 myhost main.go:42: text'',
        Call OpFatal providerError
          ''FATAL: 2016-11-21T14:50:23+03:00 myhost main.go:42: text'']\<rparr>)"
  by (simp add: Fatal_def FATAL_message_example attached_logger_def Let_def)

text \<open>
  C2. With a level below \<open>LEVEL_INFO\<close>, \<open>Log\<close> and \<open>Logf\<close> return with the world as it was:
  no sink has been called and the host name cache, which building a message would have
  filled, is untouched; whatever \<open>Sprintf\<close> would return plays no part. The same holds for
  \<open>Debug\<close> and \<open>Debugf\<close> with a level below \<open>LEVEL_DEBUG\<close>.
\<close>

theorem gated_calls_do_nothing:
  "(level l < LEVEL_INFO \<longrightarrow>
      Log l stk messageParts w = Returned w \<and> Logf Sprintf l stk format params w = Returned w) \<and>
   (level l < LEVEL_DEBUG \<longrightarrow>
      Debug l stk messageParts w = Returned w \<and>
      Debugf Sprintf l stk format params w = Returned w)"
  by (simp add: Log_def Logf_def Debug_def Debugf_def)

theorem gated_calls_do_nothing_witness:
  "level attached_logger < LEVEL_INFO \<and>
   Log attached_logger example_stack [PString ''text''] example_world = Returned example_world \<and>
   Logf (\<lambda>format params. format) attached_logger example_stack ''format: text'' []
     example_world = Returned example_world \<and>
   level (SetLevel LEVEL_INFO attached_logger) < LEVEL_DEBUG \<and>
   Debug (SetLevel LEVEL_INFO attached_logger) example_stack [PString ''text''] example_world =
     Returned example_world \<and>
   Debugf (\<lambda>format params. format) (SetLevel LEVEL_INFO attached_logger) example_stack
     ''format: text'' [] example_world = Returned example_world"
proof -
  have lv: "level attached_logger < LEVEL_INFO"
    "level (SetLevel LEVEL_INFO attached_logger) < LEVEL_DEBUG"
    by (simp_all add: attached_logger_def SetLevel_def LEVEL_INFO_def LEVEL_DEBUG_def)
  show ?thesis
    using lv
      gated_calls_do_nothing [of attached_logger example_stack "[PString ''text'']"
        example_world "\<lambda>format params. format" "''format: text''" "[]"]
      gated_calls_do_nothing [of "SetLevel LEVEL_INFO attached_logger" example_stack
        "[PString ''text'']" example_world "\<lambda>format params. format" "''format: text''" "[]"]
    by simp
qed

text \<open>
  C3, as amended. At every level, \<open>Error\<close> builds the message tagged ERROR (it starts with
  that tag) and calls the \<open>Error\<close> operation of the sinks of \<open>errorProviders\<close> in the order
  of that list. If none of these operations panics, every one of the sinks is called and
  \<open>Error\<close> returns. If one of them panics, the sinks up to that one have been called, the
  sinks after it are not, and the panic leaves \<open>Error\<close>. \<open>Errorf\<close> is \<open>Error\<close> on the
  formatted text.
\<close>

theorem Error_dispatches_until_a_sink_panics:
  assumes "makeMessage ''ERROR'' messageParts (traceType l) ((''logger.go'', 144) # stk) w =
             (msg, w1)"
  shows "((\<forall>p \<in> set (listed_sinks l (errorProviders l)). panics p OpError msg = None) \<longrightarrow>
            Error l stk messageParts w =
              Returned (w1\<lparr>calls := calls w @
                 map (\<lambda>p. Call OpError p msg) (listed_sinks l (errorProviders l))\<rparr>)) \<and>
         (listed_sinks l (errorProviders l) = qs @ p # rs \<and>
          (\<forall>q \<in> set qs. panics q OpError msg = None) \<and> panics p OpError msg = Some v \<longrightarrow>
            Error l stk messageParts w =
              Panicked v (w1\<lparr>calls := calls w @ map (\<lambda>p. Call OpError p msg) (qs @ [p])\<rparr>)) \<and>
         (map (providers l) (errorProviders l) = map Some ps \<longrightarrow>
            listed_sinks l (errorProviders l) = ps) \<and>
         HasPrefix msg ''ERROR: '' \<and>
         Errorf Sprintf l stk format params w =
           Error l ((''logger.go'', 139) # stk) [PString (Sprintf format params)] w"
proof -
  have c: "calls w1 = calls w" using assms by (rule makeMessage_calls)
  have E: "Error l stk messageParts w =
      call_all OpError (listed_sinks l (errorProviders l)) msg w1"
    by (simp add: Error_call_all assms)
  have "Error l stk messageParts w =
      Returned (w1\<lparr>calls := calls w @
         map (\<lambda>p. Call OpError p msg) (listed_sinks l (errorProviders l))\<rparr>)"
    if "\<forall>p \<in> set (listed_sinks l (errorProviders l)). panics p OpError msg = None"
    by (simp add: E call_all_returns [OF that] c)
  moreover have "Error l stk messageParts w =
      Panicked v (w1\<lparr>calls := calls w @ map (\<lambda>p. Call OpError p msg) (qs @ [p])\<rparr>)"
    if "listed_sinks l (errorProviders l) = qs @ p # rs \<and>
        (\<forall>q \<in> set qs. panics q OpError msg = None) \<and> panics p OpError msg = Some v"
  proof -
    from that have "call_all OpError (listed_sinks l (errorProviders l)) msg w1 =
        Panicked v (w1\<lparr>calls := calls w1 @ map (\<lambda>p. Call OpError p msg) (qs @ [p])\<rparr>)"
      using call_all_panics [of qs OpError msg p v rs w1] by simp
    then show ?thesis by (simp add: E c)
  qed
  moreover have "listed_sinks l (errorProviders l) = ps"
    if "map (providers l) (errorProviders l) = map Some ps"
    using that by (rule listed_sinks_all)
  moreover have "HasPrefix msg ''ERROR: ''"
    using assms by (auto simp: makeMessage_def Let_def HasPrefix_def Output_prefix_def LF_def)
  moreover have "Errorf Sprintf l stk format params w =
      Error l ((''logger.go'', 139) # stk) [PString (Sprintf format params)] w"
    by (simp add: Errorf_def)
  ultimately show ?thesis by blast
qed

theorem Error_dispatches_until_a_sink_panics_witness:
  "level telegram_logger = LEVEL_ERROR \<and>
   Error telegram_logger example_stack [PString ''text''] example_world =
     Returned (example_world\<lparr>HOST := ''myhost'', calls :=
       [Call OpError (TelegramProvider 3)
          ''ERROR: 2016-11-21T14:50:23+03:00 myhost main.go:42: text'']\<rparr>) \<and>
   Error notifier_logger example_stack [PString ''text''] example_world =
     Panicked ''call Error: ERROR: 2016-11-21T14:50:23+03:00 myhost main.go:42: text''
       (example_world\<lparr>HOST := ''myhost'', calls :=
          [Call OpError providerError
             ''ERROR: 2016-11-21T14:50:23+03:00 myhost main.go:42: text'']\<rparr>)"
proof -
  let ?msg = "''ERROR: 2016-11-21T14:50:23+03:00 myhost main.go:42: text''"
  let ?w1 = "example_world\<lparr>HOST := ''myhost''\<rparr>"
  have m1: "makeMessage ''ERROR'' [PString ''text''] (traceType telegram_logger)
      ((''logger.go'', 144) # example_stack) example_world = (?msg, ?w1)"
    and m2: "makeMessage ''ERROR'' [PString ''text''] (traceType notifier_logger)
      ((''logger.go'', 144) # example_stack) example_world = (?msg, ?w1)"
    by (simp_all add: ERROR_message_example)
  have split: "listed_sinks notifier_logger (errorProviders notifier_logger) =
      [] @ providerError # [TelegramProvider 3]"
    by (simp add: listed_sinks_examples)
  from Error_dispatches_until_a_sink_panics [OF m1]
  have "Error telegram_logger example_stack [PString ''text''] example_world =
      Returned (?w1\<lparr>calls := [Call OpError (TelegramProvider 3) ?msg]\<rparr>)"
    by simp
  moreover from Error_dispatches_until_a_sink_panics [OF m2, of "[]" providerError
      "[TelegramProvider 3]" "''call Error: '' @ ?msg"] split
  have "Error notifier_logger example_stack [PString ''text''] example_world =
      Panicked (''call Error: '' @ ?msg) (?w1\<lparr>calls := [Call OpError providerError ?msg]\<rparr>)"
    by simp
  ultimately show ?thesis by (simp add: LEVEL_ERROR_def)
qed

text \<open>
  C3 as stated fails: with a test sink and the Telegram sink in the error list, the test
  sink is called and panics, and the Telegram sink behind it receives nothing.
\<close>

theorem Error_panicking_sink_counterexample:
  "errorProviders notifier_logger = [''0'', ''telegram''] \<and>
   Error notifier_logger example_stack [PString ''text''] example_world =
     Panicked ''call Error: ERROR: 2016-11-21T14:50:23+03:00 myhost main.go:42: text''
       (example_world\<lparr>HOST := ''myhost'', calls :=
          [Call OpError providerError
             ''ERROR: 2016-11-21T14:50:23+03:00 myhost main.go:42: text'']\<rparr>)"
  by (simp add: Error_def ERROR_message_example notifier_logger_def Let_def)

subsection \<open>Attaching\<close>

text \<open>
  C4. Take a logger built from \<open>NewLogger\<close> by configuration calls, and any sequence of
  attach calls whose identifiers are all keys of its registry. The calls succeed, and
  afterwards each of the four lists is the list before followed by the newly attached
  identifiers, each once, in the order of their first attachment; the lists have no
  repetitions; and attaching an identifier that a list already holds returns the logger
  unchanged.
\<close>

theorem attach_keeps_first_registration_order:
  assumes "run_calls cs NewLogger = Inr l"
    and "\<forall>a \<in> set as. set (snd a) \<subseteq> dom (providers l)"
  shows "\<exists>l'. run_calls (map (\<lambda>a. attach_call (fst a) (snd a)) as) l = Inr l' \<and>
           (\<forall>f. deref f l' = deref f l @ first_occurrences
                  (filter (\<lambda>x. x \<notin> set (deref f l)) (concat (map snd (filter (\<lambda>a. fst a = f) as)))) \<and>
                distinct (deref f l')) \<and>
           (\<forall>f ident. ident \<in> set (deref f l) \<longrightarrow> apply_call (attach_call f [ident]) l = Inr l)"
proof -
  from reachable_invariant [of cs] assms(1)
  have ok: "registry_ok l" and dist: "lists_distinct l" by auto
  from run_attach_calls [OF ok assms(2)] obtain l' where
    run: "run_calls (map (\<lambda>a. attach_call (fst a) (snd a)) as) l = Inr l'" and
    lists: "\<And>f. deref f l' = deref f l @ first_occurrences
       (filter (\<lambda>x. x \<notin> set (deref f l)) (concat (map snd (filter (\<lambda>a. fst a = f) as))))"
    by blast
  have "distinct (deref f l')" for f
    using dist by (auto simp: lists [of f] lists_distinct_def)
  moreover have "apply_call (attach_call f [ident]) l = Inr l" if "ident \<in> set (deref f l)" for f ident
    using that ok by (simp add: apply_attach_call attach_one_present)
  ultimately show ?thesis using run lists by blast
qed

theorem attach_keeps_first_registration_order_witness:
  "\<exists>l'. run_calls
          (map (\<lambda>a. attach_call (fst a) (snd a))
             [(ErrorProviders, [''0'']), (LogProviders, [''1'', ''1'']),
              (FatalProviders, [''1'', ''0'']), (DebugProviders, [''2'', ''2'', ''0'']),
              (LogProviders, [''1''])])
          registered_logger = Inr l' \<and>
        errorProviders l' = [''0''] \<and> logProviders l' = [''1''] \<and>
        fatalProviders l' = [''1'', ''0''] \<and> debugProviders l' = [''2'', ''0'']"
proof -
  let ?as = "[(ErrorProviders, [''0'']), (LogProviders, [''1'', ''1'']),
              (FatalProviders, [''1'', ''0'']), (DebugProviders, [''2'', ''2'', ''0'']),
              (LogProviders, [''1''])]"
  have reg: "\<forall>a \<in> set ?as. set (snd a) \<subseteq> dom (providers registered_logger)"
    by (simp add: providers_registered_logger)
  from attach_keeps_first_registration_order [OF registered_logger_run reg]
  obtain l' where
    run: "run_calls (map (\<lambda>a. attach_call (fst a) (snd a)) ?as) registered_logger = Inr l'" and
    lists: "\<And>f. deref f l' = deref f registered_logger @ first_occurrences
       (filter (\<lambda>x. x \<notin> set (deref f registered_logger))
          (concat (map snd (filter (\<lambda>a. fst a = f) ?as))))"
    by blast
  have "errorProviders l' = [''0'']" "logProviders l' = [''1'']"
    "fatalProviders l' = [''1'', ''0'']" "debugProviders l' = [''2'', ''0'']"
    using lists [of ErrorProviders] lists [of LogProviders] lists [of FatalProviders]
      lists [of DebugProviders]
    by (simp_all add: deref_registered_logger first_occurrences_def)
  with run show ?thesis by blast
qed

text \<open>
  C8. For every logger, attaching identifiers of which none is a key of the registry, to
  any of the four categories, returns without panic and with the logger unchanged; and a
  later \<open>RegisterProvider\<close> changes none of the four lists, so the attachment is not made
  up for.
\<close>

theorem unregistered_attach_is_noop:
  assumes "set provIDs \<inter> dom (providers l) = {}"
  shows "AddLogProvider provIDs l = Inr l \<and> AddErrorProvider provIDs l = Inr l \<and>
         AddFatalProvider provIDs l = Inr l \<and> AddDebugProvider provIDs l = Inr l \<and>
         logProviders (RegisterProvider p l) = logProviders l \<and>
         errorProviders (RegisterProvider p l) = errorProviders l \<and>
         fatalProviders (RegisterProvider p l) = fatalProviders l \<and>
         debugProviders (RegisterProvider p l) = debugProviders l"
  using assms
  by (simp add: AddLogProvider_def AddErrorProvider_def AddFatalProvider_def AddDebugProvider_def
      addProvider_def select_field_def attach_loop_unregistered RegisterProvider_def)

theorem unregistered_attach_is_noop_witness:
  "set [''telegram''] \<inter> dom (providers attached_logger) = {} \<and>
   AddLogProvider [''telegram''] attached_logger = Inr attached_logger \<and>
   AddErrorProvider [''telegram''] attached_logger = Inr attached_logger \<and>
   AddFatalProvider [''telegram''] attached_logger = Inr attached_logger \<and>
   AddDebugProvider [''telegram''] attached_logger = Inr attached_logger \<and>
   logProviders (RegisterProvider (TelegramProvider 3) attached_logger) = [''1'']"
proof -
  have h: "set [''telegram''] \<inter> dom (providers attached_logger) = {}"
    by (simp add: attached_logger_def)
  have "logProviders attached_logger = [''1'']" by (simp add: attached_logger_def)
  then show ?thesis
    using h unregistered_attach_is_noop [OF h, of "TelegramProvider 3"]
    by simp
qed

text \<open>
  C10. Every sequence of configuration calls on \<open>NewLogger\<close> succeeds, and in the logger it
  gives, every identifier in any of the four lists is a key of the registry: each lookup
  of a listed identifier gives a sink, that sink reports the identifier, and so the sinks a
  list stands for are one for each of its identifiers. \<open>Log\<close> (at or above its threshold),
  \<open>Error\<close>, \<open>Debug\<close> (at or above its threshold) and \<open>Fatal\<close> call exactly these sinks in
  order, none left out by a failed lookup, and \<open>Logf\<close> and \<open>Debugf\<close> pass on to \<open>Log\<close> and
  \<open>Debug\<close>; where no operation panics, each of the sinks receives its call.
\<close>

theorem listed_ids_are_registered:
  "\<exists>l. run_calls cs NewLogger = Inr l \<and>
     (\<forall>f. set (deref f l) \<subseteq> dom (providers l) \<and>
          map (providers l) (deref f l) = map Some (listed_sinks l (deref f l)) \<and>
          map GetID (listed_sinks l (deref f l)) = deref f l) \<and>
     (\<forall>stk messageParts w.
        Log l stk messageParts w =
          (if level l < LEVEL_INFO then Returned w
           else call_all OpLog (listed_sinks l (logProviders l))
             (fst (makeMessage ''LOG'' messageParts (traceType l) ((''logger.go'', 129) # stk) w))
             (snd (makeMessage ''LOG'' messageParts (traceType l) ((''logger.go'', 129) # stk) w))) \<and>
        Error l stk messageParts w =
          call_all OpError (listed_sinks l (errorProviders l))
            (fst (makeMessage ''ERROR'' messageParts (traceType l) ((''logger.go'', 144) # stk) w))
            (snd (makeMessage ''ERROR'' messageParts (traceType l) ((''logger.go'', 144) # stk) w)) \<and>
        Debug l stk messageParts w =
          (if level l < LEVEL_DEBUG then Returned w
           else call_all OpDebug (listed_sinks l (debugProviders l))
             (fst (makeMessage ''DEBUG'' messageParts (traceType l) ((''logger.go'', 166) # stk) w))
             (snd (makeMessage ''DEBUG'' messageParts (traceType l) ((''logger.go'', 166) # stk) w))) \<and>
        Fatal l stk messageParts w =
          (case call_all OpFatal (listed_sinks l (fatalProviders l))
             (fst (makeMessage ''FATAL'' messageParts (traceType l) ((''logger.go'', 180) # stk) w))
             (snd (makeMessage ''FATAL'' messageParts (traceType l) ((''logger.go'', 180) # stk) w)) of
             Returned w2 \<Rightarrow> Exited 1 w2
           | Panicked v w2 \<Rightarrow> Panicked v w2
           | Exited c w2 \<Rightarrow> Exited c w2)) \<and>
     (\<forall>Sprintf stk format params w.
        Logf Sprintf l stk format params w =
          (if level l < LEVEL_INFO then Returned w
           else Log l ((''logger.go'', 122) # stk) [PString (Sprintf format params)] w) \<and>
        Debugf Sprintf l stk format params w =
          (if level l < LEVEL_DEBUG then Returned w
           else Debug l ((''logger.go'', 158) # stk) [PString (Sprintf format params)] w)) \<and>
     (\<forall>oper ps msg w. (\<forall>p \<in> set ps. panics p oper msg = None) \<longrightarrow>
        call_all oper ps msg w =
          Returned (w\<lparr>calls := calls w @ map (\<lambda>p. Call oper p msg) ps\<rparr>))"
proof -
  from reachable_invariant [of cs] obtain l where
    run: "run_calls cs NewLogger = Inr l" and ok: "registry_ok l" and reg: "listed_registered l"
    by blast
  have lists: "set (deref f l) \<subseteq> dom (providers l) \<and>
      map (providers l) (deref f l) = map Some (listed_sinks l (deref f l)) \<and>
      map GetID (listed_sinks l (deref f l)) = deref f l" for f
  proof -
    have sub: "set (deref f l) \<subseteq> dom (providers l)"
      using reg by (simp add: listed_registered_def)
    from listed_resolve [OF ok sub] obtain ps where
      ps: "map (providers l) (deref f l) = map Some ps" "map GetID ps = deref f l" by blast
    from listed_sinks_all [OF ps(1)] ps sub show ?thesis by simp
  qed
  have quiet: "call_all oper ps msg w =
      Returned (w\<lparr>calls := calls w @ map (\<lambda>p. Call oper p msg) ps\<rparr>)"
    if "\<forall>p \<in> set ps. panics p oper msg = None" for oper ps msg w
    using that by (rule call_all_returns)
  have formatted: "Logf Sprintf l stk format params w =
          (if level l < LEVEL_INFO then Returned w
           else Log l ((''logger.go'', 122) # stk) [PString (Sprintf format params)] w) \<and>
        Debugf Sprintf l stk format params w =
          (if level l < LEVEL_DEBUG then Returned w
           else Debug l ((''logger.go'', 158) # stk) [PString (Sprintf format params)] w)"
    for Sprintf stk format params w
    by (simp add: Logf_def Debugf_def)
  show ?thesis
    using run lists quiet formatted Log_call_all [of l] Error_call_all [of l]
      Debug_call_all [of l] Fatal_call_all [of l]
    by (intro exI [of _ l]) simp
qed

theorem listed_ids_are_registered_witness:
  "\<exists>l. run_calls notifier_calls NewLogger = Inr l \<and>
        set (logProviders l) \<subseteq> dom (providers l) \<and>
        set (debugProviders l) \<subseteq> dom (providers l) \<and>
        Log l example_stack [PString ''text''] example_world =
          Returned (example_world\<lparr>HOST := ''myhost'', calls :=
            [Call OpLog providerDebug ''LOG: 2016-11-21T14:50:23+03:00 myhost main.go:42: text'',
             Call OpLog (TelegramProvider 3)
               ''LOG: 2016-11-21T14:50:23+03:00 myhost main.go:42: text'']\<rparr>) \<and>
        Debug l example_stack [PString ''text''] example_world =
          Returned (example_world\<lparr>HOST := ''myhost'', calls :=
            [Call OpDebug providerDebug
               ''DEBUG: 2016-11-21T14:50:23+03:00 myhost main.go:42: text'',
             Call OpDebug (TelegramProvider 3)
               ''DEBUG: 2016-11-21T14:50:23+03:00 myhost main.go:42: text'']\<rparr>) \<and>
        Fatal l example_stack [PString ''text''] example_world =
          Exited 1 (example_world\<lparr>HOST := ''myhost'', calls :=
            [Call OpFatal (TelegramProvider 3)
               ''FATAL: 2016-11-21T14:50:23+03:00 myhost main.go:42: text'']\<rparr>)"
proof -
  from listed_ids_are_registered [of notifier_calls] show ?thesis
  proof (elim exE conjE)
    fix l
    assume run: "run_calls notifier_calls NewLogger = Inr l"
      and lists: "\<forall>f. set (deref f l) \<subseteq> dom (providers l) \<and>
            map (providers l) (deref f l) = map Some (listed_sinks l (deref f l)) \<and>
            map GetID (listed_sinks l (deref f l)) = deref f l"
      and entry: "\<forall>stk messageParts w.
          Log l stk messageParts w =
            (if level l < LEVEL_INFO then Returned w
             else call_all OpLog (listed_sinks l (logProviders l))
               (fst (makeMessage ''LOG'' messageParts (traceType l) ((''logger.go'', 129) # stk) w))
               (snd (makeMessage ''LOG'' messageParts (traceType l) ((''logger.go'', 129) # stk) w))) \<and>
          Error l stk messageParts w =
            call_all OpError (listed_sinks l (errorProviders l))
              (fst (makeMessage ''ERROR'' messageParts (traceType l) ((''logger.go'', 144) # stk) w))
              (snd (makeMessage ''ERROR'' messageParts (traceType l) ((''logger.go'', 144) # stk) w)) \<and>
          Debug l stk messageParts w =
            (if level l < LEVEL_DEBUG then Returned w
             else call_all OpDebug (listed_sinks l (debugProviders l))
               (fst (makeMessage ''DEBUG'' messageParts (traceType l) ((''logger.go'', 166) # stk) w))
               (snd (makeMessage ''DEBUG'' messageParts (traceType l) ((''logger.go'', 166) # stk) w))) \<and>
          Fatal l stk messageParts w =
            (case call_all OpFatal (listed_sinks l (fatalProviders l))
               (fst (makeMessage ''FATAL'' messageParts (traceType l) ((''logger.go'', 180) # stk) w))
               (snd (makeMessage ''FATAL'' messageParts (traceType l) ((''logger.go'', 180) # stk) w)) of
               Returned w2 \<Rightarrow> Exited 1 w2
             | Panicked v w2 \<Rightarrow> Panicked v w2
             | Exited c w2 \<Rightarrow> Exited c w2)"
      and formatted: "\<forall>Sprintf stk format params w.
          Logf Sprintf l stk format params w =
            (if level l < LEVEL_INFO then Returned w
             else Log l ((''logger.go'', 122) # stk) [PString (Sprintf format params)] w) \<and>
          Debugf Sprintf l stk format params w =
            (if level l < LEVEL_DEBUG then Returned w
             else Debug l ((''logger.go'', 158) # stk) [PString (Sprintf format params)] w)"
      and quiet: "\<forall>oper ps msg w. (\<forall>p \<in> set ps. panics p oper msg = None) \<longrightarrow>
          call_all oper ps msg w =
            Returned (w\<lparr>calls := calls w @ map (\<lambda>p. Call oper p msg) ps\<rparr>)"
    from run have l: "l = notifier_logger" by (simp add: notifier_logger_run)
    have q: "call_all oper [providerDebug, TelegramProvider 3] msg w =
        Returned (w\<lparr>calls := calls w @
          [Call oper providerDebug msg, Call oper (TelegramProvider 3) msg]\<rparr>)"
      if "oper = OpLog \<or> oper = OpDebug" for oper msg w
    proof -
      from that have "\<forall>p \<in> set [providerDebug, TelegramProvider 3]. panics p oper msg = None"
        by auto
      with quiet show ?thesis by fastforce
    qed
    have "Log l example_stack [PString ''text''] example_world =
            Returned (example_world\<lparr>HOST := ''myhost'', calls :=
              [Call OpLog providerDebug ''LOG: 2016-11-21T14:50:23+03:00 myhost main.go:42: text'',
               Call OpLog (TelegramProvider 3)
                 ''LOG: 2016-11-21T14:50:23+03:00 myhost main.go:42: text'']\<rparr>)"
      unfolding entry [THEN spec, THEN spec, THEN spec, THEN conjunct1]
      by (simp add: l LOG_message_example listed_sinks_examples LEVEL_INFO_def q del: call_all.simps)
    moreover have "Debug l example_stack [PString ''text''] example_world =
            Returned (example_world\<lparr>HOST := ''myhost'', calls :=
              [Call OpDebug providerDebug
                 ''DEBUG: 2016-11-21T14:50:23+03:00 myhost main.go:42: text'',
               Call OpDebug (TelegramProvider 3)
                 ''DEBUG: 2016-11-21T14:50:23+03:00 myhost main.go:42: text'']\<rparr>)"
      unfolding entry [THEN spec, THEN spec, THEN spec, THEN conjunct2, THEN conjunct2, THEN conjunct1]
      by (simp add: l DEBUG_message_example listed_sinks_examples LEVEL_DEBUG_def q
          del: call_all.simps)
    moreover have "Fatal l example_stack [PString ''text''] example_world =
            Exited 1 (example_world\<lparr>HOST := ''myhost'', calls :=
              [Call OpFatal (TelegramProvider 3)
                 ''FATAL: 2016-11-21T14:50:23+03:00 myhost main.go:42: text'']\<rparr>)"
      unfolding entry [THEN spec, THEN spec, THEN spec, THEN conjunct2, THEN conjunct2, THEN conjunct2]
      by (simp add: l FATAL_message_example listed_sinks_examples)
    ultimately show ?thesis
      using run lists [THEN spec, of LogProviders] lists [THEN spec, of DebugProviders]
      by (intro exI [of _ l]) simp
  qed
qed

subsection \<open>Configuration\<close>

text \<open>
  C9. \<open>SetTraceType\<close> with a value other than the two trace types returns the error and the
  logger as it was; with \<open>TRACE_TYPE_ONE\<close> or \<open>TRACE_TYPE_ANY\<close> it returns no error and the
  logger with that trace type stored, every other field as it was.
\<close>

theorem SetTraceType_result:
  "(val \<noteq> TRACE_TYPE_ONE \<and> val \<noteq> TRACE_TYPE_ANY \<longrightarrow>
      (\<exists>e. fst (SetTraceType val l) = Some e) \<and> snd (SetTraceType val l) = l) \<and>
   (val = TRACE_TYPE_ONE \<or> val = TRACE_TYPE_ANY \<longrightarrow>
      SetTraceType val l = (None, l\<lparr>traceType := val\<rparr>) \<and>
      traceType (snd (SetTraceType val l)) = val)"
  by (simp add: SetTraceType_def)

theorem SetTraceType_result_witness:
  "(2 \<noteq> TRACE_TYPE_ONE \<and> 2 \<noteq> TRACE_TYPE_ANY) \<and>
   fst (SetTraceType 2 (NewLogger\<lparr>traceType := 1\<rparr>)) = Some ''Unknown trace type.'' \<and>
   traceType (snd (SetTraceType 2 (NewLogger\<lparr>traceType := 1\<rparr>))) = 1 \<and>
   traceType (snd (SetTraceType 1 NewLogger)) = 1 \<and>
   fst (SetTraceType 1 NewLogger) = None"
  using SetTraceType_result [of 2 "NewLogger\<lparr>traceType := 1\<rparr>"]
        SetTraceType_result [of 1 NewLogger]
  by (simp add: TRACE_TYPE_ONE_def TRACE_TYPE_ANY_def SetTraceType_def NewLogger_def)

subsection \<open>The message\<close>

text \<open>
  C5. For every list of message parts, the body of the message is the printed forms of the
  parts joined by one space, with every carriage return dropped and every newline turned
  into a tab; the message is the prefix (without newlines) followed by that body; and the
  parts of the repository's test give the text the test expects.
\<close>

theorem message_body_flattens:
  "message_body err =
     concat (map (\<lambda>c. if c = CR then [] else if c = LF then [TAB] else [c])
       (Join (map Fprint err) '' '')) \<and>
   fst (makeMessage typeLog err tt stk w) =
     filter (\<lambda>c. c \<noteq> LF)
       (typeLog @ '': '' @ time_Now w @ '' '' @ (if HOST w = [] then os_Hostname w else HOST w)
          @ '' '' @ trace_line tt stk @ '': '')
     @ message_body err \<and>
   message_body [PString (''line1'' @ [LF] @ ''line2''), PString (''line3'' @ [CR, LF] @ ''line4''),
       PString ''text1'', PString ''text2'', PInt 10] =
     ''line1'' @ [TAB] @ ''line2 line3'' @ [TAB] @ ''line4 text1 text2 10''"
proof (intro conjI)
  show "message_body err =
     concat (map (\<lambda>c. if c = CR then [] else if c = LF then [TAB] else [c])
       (Join (map Fprint err) '' ''))"
    by (simp add: message_body_def Replace_MESSAGE_REPLACER write_parts_Join)
  have "filter (\<lambda>c. c \<noteq> LF) (message_body err) = message_body err"
    using LF_notin_body [of "write_parts 0 err []"]
    by (auto simp: message_body_def filter_id_conv)
  then show "fst (makeMessage typeLog err tt stk w) =
     filter (\<lambda>c. c \<noteq> LF)
       (typeLog @ '': '' @ time_Now w @ '' '' @ (if HOST w = [] then os_Hostname w else HOST w)
          @ '' '' @ trace_line tt stk @ '': '')
     @ message_body err"
    by (simp add: makeMessage_def Let_def Output_prefix_def)
  show "message_body [PString (''line1'' @ [LF] @ ''line2''), PString (''line3'' @ [CR, LF] @ ''line4''),
       PString ''text1'', PString ''text2'', PInt 10] =
     ''line1'' @ [TAB] @ ''line2 line3'' @ [TAB] @ ''line4 text1 text2 10''"
    by (simp add: message_body_def Replace_MESSAGE_REPLACER MESSAGE_SEPARATOR_def
        itoa.simps digit_def LF_def CR_def TAB_def)
qed

theorem message_body_flattens_witness:
  "fst (makeMessage ''Err''
      [PString (''line1'' @ [LF] @ ''line2''), PString (''line3'' @ [CR, LF] @ ''line4''),
       PString ''text1'', PString ''text2'', PInt 10]
      TRACE_TYPE_ANY [(''logger_test.go'', 57), (''testing.go'', 610)] example_world) =
   ''Err: 2016-11-21T14:50:23+03:00 myhost logger_test.go:57: line1'' @ [TAB] @
   ''line2 line3'' @ [TAB] @ ''line4 text1 text2 10''"
proof -
  have line: "trace_line TRACE_TYPE_ANY [(''logger_test.go'', 57), (''testing.go'', 610)] =
      ''logger_test.go:57''"
    by (simp add: trace_line_def Output_shortfile_def Caller_def HasPrefix_def itoa.simps
        digit_def Replace_def Replace_from.simps LOGGER_LINE_REPLACER_def LF_def TrimRight_def
        TRACE_TYPE_ONE_def TRACE_TYPE_ANY_def)
  note inst = message_body_flattens [of "[PString (''line1'' @ [LF] @ ''line2''),
        PString (''line3'' @ [CR, LF] @ ''line4''), PString ''text1'', PString ''text2'', PInt 10]"
        "''Err''" TRACE_TYPE_ANY "[(''logger_test.go'', 57), (''testing.go'', 610)]" example_world]
  note msg = inst [THEN conjunct2, THEN conjunct1]
  note body = inst [THEN conjunct2, THEN conjunct2]
  have pre: "filter (\<lambda>c. c \<noteq> LF)
       (''Err'' @ '': '' @ time_Now example_world @ '' '' @
        (if HOST example_world = [] then os_Hostname example_world else HOST example_world)
          @ '' '' @ trace_line TRACE_TYPE_ANY [(''logger_test.go'', 57), (''testing.go'', 610)]
          @ '': '') = ''Err: 2016-11-21T14:50:23+03:00 myhost logger_test.go:57: ''"
    by (simp add: line example_world_def LF_def)
  show ?thesis unfolding msg body pre by simp
qed

text \<open>
  C7, as amended. A carriage return followed by a newline becomes one tab in the body. Two
  newlines in a row become two tabs, one for each newline: the replacer works byte by byte.
\<close>

theorem newline_pairs_in_body:
  "Replace MESSAGE_REPLACER (xs @ [CR, LF] @ ys) =
     Replace MESSAGE_REPLACER xs @ [TAB] @ Replace MESSAGE_REPLACER ys \<and>
   Replace MESSAGE_REPLACER (xs @ [LF, LF] @ ys) =
     Replace MESSAGE_REPLACER xs @ [TAB, TAB] @ Replace MESSAGE_REPLACER ys \<and>
   message_body [PString (xs @ [CR, LF] @ ys)] =
     message_body [PString xs] @ [TAB] @ message_body [PString ys] \<and>
   message_body [PString (xs @ [LF, LF] @ ys)] =
     message_body [PString xs] @ [TAB, TAB] @ message_body [PString ys]"
  by (simp add: message_body_single Replace_MESSAGE_REPLACER CR_def LF_def)

theorem newline_pairs_in_body_witness:
  "message_body [PString (''line3'' @ [CR, LF] @ ''line4'')] = ''line3'' @ [TAB] @ ''line4'' \<and>
   message_body [PString (''a'' @ [LF, LF] @ ''b'')] = ''a'' @ [TAB, TAB] @ ''b''"
  using newline_pairs_in_body [of "''line3''" "''line4''"] newline_pairs_in_body [of "''a''" "''b''"]
  by (simp add: message_body_single Replace_MESSAGE_REPLACER CR_def LF_def)

text \<open>
  C7 as stated fails: the part \<open>a\<close>, newline, newline, \<open>b\<close> has two tabs in the body, not one.
\<close>

theorem newline_newline_counterexample:
  "message_body [PString (''a'' @ [LF, LF] @ ''b'')] = ''a'' @ [TAB, TAB] @ ''b'' \<and>
   message_body [PString (''a'' @ [LF, LF] @ ''b'')] \<noteq> ''a'' @ [TAB] @ ''b''"
  by (simp add: message_body_single Replace_MESSAGE_REPLACER CR_def LF_def TAB_def)

text \<open>
  C6, as amended. The walk visits the four frames at depths 2 to 5 only. Take a stack whose
  first four file names are plain. The frames that count are those among the first four
  that are outside \<open>logger.go\<close> and before the first frame of \<open>testing.go\<close>. In the full
  trace mode, if the stack has at least four frames or a frame of \<open>testing.go\<close> among its
  first four, the location field lists all of them, separated by comma and space, innermost
  first. In the single mode, if there is such a frame, the location field is the entry of
  the first of them and nothing else; and under the condition of the full mode it is empty
  when there is none.
\<close>

theorem location_field_window:
  assumes "\<forall>fr \<in> set (take 4 stk). plain_name (fst fr)"
  shows "(4 \<le> length stk \<or> (\<exists>fr \<in> set (take 4 stk). fst fr = ''testing.go'') \<longrightarrow>
            trace_line TRACE_TYPE_ANY stk =
              Join (map location (external_frames (take 4 stk))) '', '') \<and>
         (external_frames (take 4 stk) \<noteq> [] \<longrightarrow>
            trace_line TRACE_TYPE_ONE stk = location (hd (external_frames (take 4 stk)))) \<and>
         (external_frames (take 4 stk) \<noteq> [] \<or> 4 \<le> length stk \<or>
          (\<exists>fr \<in> set (take 4 stk). fst fr = ''testing.go'') \<longrightarrow>
            trace_line TRACE_TYPE_ONE stk =
              Join (map location (take 1 (external_frames (take 4 stk)))) '', '')"
proof -
  note line = trace_line_window [OF assms]
  have full: "trace_line TRACE_TYPE_ANY stk =
      Join (map location (external_frames (take 4 stk))) '', ''"
    if "4 \<le> length stk \<or> (\<exists>fr \<in> set (take 4 stk). fst fr = ''testing.go'')"
    unfolding line recorded_def window_full [OF that]
    by (simp add: TRACE_TYPE_ONE_def TRACE_TYPE_ANY_def)
  have single: "trace_line TRACE_TYPE_ONE stk =
      Join (map location (take 1 (external_frames (take 4 stk)))) '', ''"
    if "external_frames (take 4 stk) \<noteq> [] \<or> 4 \<le> length stk \<or>
        (\<exists>fr \<in> set (take 4 stk). fst fr = ''testing.go'')"
  proof (cases "external_frames (take 4 stk) \<noteq> []")
    case True
    show ?thesis unfolding line recorded_def window_single [OF True] by simp
  next
    case False
    with that have cond: "4 \<le> length stk \<or> (\<exists>fr \<in> set (take 4 stk). fst fr = ''testing.go'')"
      by simp
    show ?thesis unfolding line recorded_def window_full [OF cond] by simp
  qed
  have first: "trace_line TRACE_TYPE_ONE stk = location (hd (external_frames (take 4 stk)))"
    if "external_frames (take 4 stk) \<noteq> []"
    using single that by (cases "external_frames (take 4 stk)") simp_all
  from full single first show ?thesis by blast
qed

theorem location_field_window_witness:
  "trace_line TRACE_TYPE_ANY
     [(''logger.go'', 129), (''logger.go'', 122), (''logger_test.go'', 124),
      (''logger_test.go'', 138), (''testing.go'', 610)] =
     ''logger_test.go:124, logger_test.go:138'' \<and>
   trace_line TRACE_TYPE_ONE
     [(''logger.go'', 129), (''logger.go'', 122), (''logger_test.go'', 124),
      (''logger_test.go'', 138), (''testing.go'', 610)] = ''logger_test.go:124'' \<and>
   trace_line TRACE_TYPE_ONE
     [(''logger.go'', 144), (''worker.go'', 12), (''asm_amd64.s'', 1264)] = ''worker.go:12'' \<and>
   trace_line TRACE_TYPE_ANY [(''logger_test.go'', 57), (''testing.go'', 610)] =
     ''logger_test.go:57''"
proof -
  have a: "trace_line TRACE_TYPE_ANY
     [(''logger.go'', 129), (''logger.go'', 122), (''logger_test.go'', 124),
      (''logger_test.go'', 138), (''testing.go'', 610)] =
     ''logger_test.go:124, logger_test.go:138''"
    and b: "trace_line TRACE_TYPE_ONE
     [(''logger.go'', 129), (''logger.go'', 122), (''logger_test.go'', 124),
      (''logger_test.go'', 138), (''testing.go'', 610)] = ''logger_test.go:124''"
    using location_field_window [of "[(''logger.go'', 129), (''logger.go'', 122),
      (''logger_test.go'', 124), (''logger_test.go'', 138), (''testing.go'', 610)]"]
    by (simp_all add: plain_name_def LF_def external_frames_def location_def itoa.simps digit_def)
  have c: "trace_line TRACE_TYPE_ONE
     [(''logger.go'', 144), (''worker.go'', 12), (''asm_amd64.s'', 1264)] = ''worker.go:12''"
    using location_field_window [of "[(''logger.go'', 144), (''worker.go'', 12),
      (''asm_amd64.s'', 1264)]"]
    by (simp add: plain_name_def LF_def external_frames_def location_def itoa.simps digit_def)
  have d: "trace_line TRACE_TYPE_ANY [(''logger_test.go'', 57), (''testing.go'', 610)] =
     ''logger_test.go:57''"
    using location_field_window [of "[(''logger_test.go'', 57), (''testing.go'', 610)]"]
    by (simp add: plain_name_def LF_def external_frames_def location_def itoa.simps digit_def)
  from a b c d show ?thesis by simp
qed

text \<open>
  C6 as stated fails: with four callers outside the module below the test runner, the full
  trace mode lists three of them.
\<close>

theorem full_trace_counterexample:
  "trace_line TRACE_TYPE_ANY
     [(''logger.go'', 129), (''a.go'', 1), (''b.go'', 2), (''c.go'', 3), (''d.go'', 4),
      (''testing.go'', 610)] = ''a.go:1, b.go:2, c.go:3'' \<and>
   trace_line TRACE_TYPE_ANY
     [(''logger.go'', 129), (''a.go'', 1), (''b.go'', 2), (''c.go'', 3), (''d.go'', 4),
      (''testing.go'', 610)] \<noteq>
   Join (map location (external_frames
     [(''logger.go'', 129), (''a.go'', 1), (''b.go'', 2), (''c.go'', 3), (''d.go'', 4),
      (''testing.go'', 610)])) '', ''"
  by (simp add: trace_line_def Output_shortfile_def Caller_def HasPrefix_def itoa.simps digit_def
      Replace_def Replace_from.simps LOGGER_LINE_REPLACER_def LF_def TrimRight_def
      TRACE_TYPE_ONE_def TRACE_TYPE_ANY_def external_frames_def location_def)

end
